theory Spec2Isabelle
  imports Main
begin

section \<open>Python text and exceptions\<close>

text \<open>
  A Python \<open>str\<close> is a sequence of Unicode code points; it is modelled as a list of
  natural numbers, so that characters outside Latin-1 (the bullet U+2022 that \<open>_clean\<close>
  strips, the flag glyph) are ordinary elements. \<open>U\<close> turns an ASCII literal of the
  theory into such a text.
\<close>

type_synonym pystr = "nat list"

definition U :: "string \<Rightarrow> pystr" where
  "U s = map of_char s"

text \<open>
  The texts that the UTF-8 codec encodes: those of code points up to U+10FFFF none of
  which is a surrogate (U+D800 to U+DFFF). Writing any other text to a file opened with
  \<open>encoding="utf-8"\<close> raises \<open>UnicodeEncodeError\<close>.
\<close>

definition utf8_encodable :: "pystr \<Rightarrow> bool" where
  "utf8_encodable s = list_all (\<lambda>c. c < 55296 \<or> (57343 < c \<and> c < 1114112)) s"

text \<open>The exceptions that the modelled code can meet, all subclasses of \<open>Exception\<close>.\<close>

datatype error =
    ZeroDivisionError
  | FileNotFoundError
  | OSError pystr
  | UnicodeEncodeError
  | ValueError
  | TimeoutException
  | NoSuchElementException
  | WebDriverException

section \<open>JSON serialisation of an event (\<open>json.dumps(event, ensure_ascii=False)\<close>)\<close>

text \<open>
  The events built by the extractors are dictionaries whose values are texts or, for
  \<open>enlaces\<close>, a dictionary of texts. A dictionary keeps insertion order, so it is an
  association list.
\<close>

datatype json = JStr pystr | JObj "(pystr \<times> json) list"

definition hexdigit :: "nat \<Rightarrow> nat" where
  "hexdigit d = (if d < 10 then 48 + d else 87 + d)"

text \<open>
  The escape table of the standard encoder without \<open>ensure_ascii\<close>: quote, backslash
  and every code point below U+0020 are escaped, everything else is written as it is.
\<close>

definition escape_char :: "nat \<Rightarrow> pystr" where
  "escape_char c =
     (if c = 34 then [92, 34]
      else if c = 92 then [92, 92]
      else if c = 8 then [92, 98]
      else if c = 12 then [92, 102]
      else if c = 10 then [92, 110]
      else if c = 13 then [92, 114]
      else if c = 9 then [92, 116]
      else if c < 32 then [92, 117, 48, 48, hexdigit (c div 16), hexdigit (c mod 16)]
      else [c])"

definition encode_basestring :: "pystr \<Rightarrow> pystr" where
  "encode_basestring s = [34] @ concat (map escape_char s) @ [34]"

fun join_items :: "pystr list \<Rightarrow> pystr" where
  "join_items [] = []"
| "join_items [x] = x"
| "join_items (x # y # ys) = x @ [44, 32] @ join_items (y # ys)"

primrec json_dumps :: "json \<Rightarrow> pystr" where
  "json_dumps (JStr s) = encode_basestring s"
| "json_dumps (JObj kvs) =
     [123] @
     join_items (map (\<lambda>(k, d). encode_basestring k @ [58, 32] @ d)
                     (map (map_prod id json_dumps) kvs)) @
     [125]"

section \<open>The streamer (\<open>flow_events.py\<close>, class \<open>EventStreamer\<close>)\<close>

text \<open>
  What the streamer touches outside itself: the stream file (\<open>None\<close> while it does
  not exist); the snapshot files in the output directory, each with its name and its
  uncompressed content; the names under which snapshots were written, in the order of
  the writes (a write under the name of an existing file replaces that file, so the
  directory can hold fewer files than there were writes); whether
  \<open>scripts/upload_event.sh\<close> exists; the commands handed to \<open>subprocess.run\<close>; and
  what was printed. Opening and reading an existing file are taken to succeed.
\<close>

datatype message =
    UploaderReturned int pystr pystr
  | RunFailed "pystr list" error
  | UploaderNotFound
  | FinalSnapshotFailed error

record world =
  stream_content :: "pystr option"
  snapshot_dir :: "(pystr \<times> pystr) list"
  snapshot_writes :: "pystr list"
  uploader_exists :: bool
  runs :: "pystr list list"
  console :: "message list"

text \<open>
  What one call reads from its surroundings: the clock (\<open>_ts_day\<close>, \<open>_ts_full\<close>)
  and what \<open>subprocess.run\<close> does with the uploader for the stream and for the
  snapshot: it completes with a return code, stdout and stderr, or it raises.
\<close>

datatype run_result = Completed int pystr pystr | RunRaised pystr

record call_env =
  ts_day :: pystr
  ts_full :: pystr
  run_stream :: run_result
  run_snap :: run_result

record streamer =
  out_dir :: pystr
  stream_file :: pystr
  snapshot_every :: int
  count :: int
  uploader :: pystr

text \<open>A stateful step returns its result, or the exception it raised, and the world it left.\<close>

definition bind_io ::
  "(error + 'a) \<times> world \<Rightarrow> ('a \<Rightarrow> world \<Rightarrow> (error + 'b) \<times> world) \<Rightarrow> (error + 'b) \<times> world" where
  "bind_io m f = (case m of (Inl e, w) \<Rightarrow> (Inl e, w) | (Inr v, w) \<Rightarrow> f v w)"

definition STRICT_MISSING_UPLOADER :: bool where
  "STRICT_MISSING_UPLOADER = False"

definition subprocess_run :: "pystr list \<Rightarrow> run_result \<Rightarrow> world \<Rightarrow> (error + int \<times> pystr \<times> pystr) \<times> world" where
  "subprocess_run cmd r w =
     (case r of
        Completed rc out err \<Rightarrow> (Inr (rc, out, err), w\<lparr>runs := runs w @ [cmd]\<rparr>)
      | RunRaised msg \<Rightarrow> (Inl (OSError msg), w\<lparr>runs := runs w @ [cmd]\<rparr>))"

definition safe_run :: "pystr list \<Rightarrow> run_result \<Rightarrow> world \<Rightarrow> (error + int) \<times> world" where
  "safe_run cmd r w =
     (case subprocess_run cmd r w of
        (Inr (rc, out, err), w1) \<Rightarrow>
          (Inr rc,
           if rc \<noteq> 0 then w1\<lparr>console := console w1 @ [UploaderReturned rc out err]\<rparr> else w1)
      | (Inl e, w1) \<Rightarrow> (Inr 1, w1\<lparr>console := console w1 @ [RunFailed cmd e]\<rparr>))"

definition EventStreamer_init ::
  "bool \<Rightarrow> pystr \<Rightarrow> pystr \<Rightarrow> int \<Rightarrow> world \<Rightarrow> (error + streamer) \<times> world" where
  "EventStreamer_init strict od sf every w =
     (let self = \<lparr>out_dir = od, stream_file = sf, snapshot_every = max 1 every, count = 0,
                  uploader = U ''scripts/upload_event.sh''\<rparr>;
          w1 = (if stream_content w = None then w\<lparr>stream_content := Some []\<rparr> else w)
      in if \<not> uploader_exists w1
         then (if strict then (Inl FileNotFoundError, w1)
               else (Inr self, w1\<lparr>console := console w1 @ [UploaderNotFound]\<rparr>))
         else (Inr self, w1))"

definition upload_stream :: "call_env \<Rightarrow> streamer \<Rightarrow> world \<Rightarrow> (error + unit) \<times> world" where
  "upload_stream env self w =
     (if \<not> uploader_exists w then (Inr (), w)
      else bind_io
             (safe_run [U ''bash'', uploader self, stream_file self,
                        U ''events_stream_'' @ ts_day env @ U ''.jsonl''] (run_stream env) w)
             (\<lambda>rc w1. (Inr (), w1)))"

text \<open>Opening a file with mode \<open>wb\<close> and writing it: a file of that name is replaced.\<close>

fun write_file :: "pystr \<Rightarrow> pystr \<Rightarrow> (pystr \<times> pystr) list \<Rightarrow> (pystr \<times> pystr) list" where
  "write_file name c [] = [(name, c)]"
| "write_file name c ((n, c') # fs) =
     (if n = name then (name, c) # fs else (n, c') # write_file name c fs)"

text \<open>The names of the snapshot files in the output directory.\<close>

definition snapshot_files :: "world \<Rightarrow> pystr set" where
  "snapshot_files w = fst ` set (snapshot_dir w)"

text \<open>
  \<open>_make_snapshot\<close> names the file by the clock, to the second, and opens the gzip file
  first, then the stream file: when the stream file is missing, an empty snapshot is
  left behind and \<open>FileNotFoundError\<close> is raised. The result is the snapshot's name; its
  path is \<open>out_dir / name\<close>.
\<close>

definition snapshot_name :: "call_env \<Rightarrow> pystr" where
  "snapshot_name env = U ''events_stream_'' @ ts_full env @ U ''.jsonl.gz''"

definition make_snapshot :: "call_env \<Rightarrow> streamer \<Rightarrow> world \<Rightarrow> (error + pystr) \<times> world" where
  "make_snapshot env self w =
     (case stream_content w of
        None \<Rightarrow>
          (Inl FileNotFoundError,
           w\<lparr>snapshot_dir := write_file (snapshot_name env) [] (snapshot_dir w),
              snapshot_writes := snapshot_writes w @ [snapshot_name env]\<rparr>)
      | Some c \<Rightarrow>
          (Inr (snapshot_name env),
           w\<lparr>snapshot_dir := write_file (snapshot_name env) c (snapshot_dir w),
              snapshot_writes := snapshot_writes w @ [snapshot_name env]\<rparr>))"

text \<open>
  \<open>str(out_dir / name)\<close> for a file name: \<open>pathlib\<close> drops the directory \<open>.\<close> and does
  not repeat the separator after a root.
\<close>

definition path_join :: "pystr \<Rightarrow> pystr \<Rightarrow> pystr" where
  "path_join d name =
     (if d = U ''.'' then name
      else if d \<noteq> [] \<and> last d = 47 then d @ name
      else d @ U ''/'' @ name)"

definition upload_snapshot :: "call_env \<Rightarrow> streamer \<Rightarrow> pystr \<Rightarrow> world \<Rightarrow> (error + unit) \<times> world" where
  "upload_snapshot env self name w =
     (if \<not> uploader_exists w then (Inr (), w)
      else bind_io
             (safe_run [U ''bash'', uploader self, path_join (out_dir self) name, name]
                       (run_snap env) w)
             (\<lambda>rc w1. (Inr (), w1)))"

text \<open>What the stream file holds; opening a missing file for appending creates it.\<close>

definition content_of :: "world \<Rightarrow> pystr" where
  "content_of w = (case stream_content w of None \<Rightarrow> [] | Some c \<Rightarrow> c)"

text \<open>The records whose line can be written to the stream file.\<close>

definition writable :: "json \<Rightarrow> bool" where
  "writable event = utf8_encodable (json_dumps event @ [10])"

text \<open>
  \<open>add\<close>: the stream file is opened for appending and the line of the record written;
  when the line cannot be encoded the write raises, and nothing is appended or counted.
  Then the call is counted, the stream uploaded, and a snapshot taken when the count is
  a multiple of \<open>snapshot_every\<close>. Python's \<open>%\<close> raises on a zero divisor.
\<close>

definition add :: "call_env \<Rightarrow> json \<Rightarrow> streamer \<times> world \<Rightarrow> (error + unit) \<times> streamer \<times> world" where
  "add env event s =
     (case s of (self, w) \<Rightarrow>
        if \<not> writable event
        then (Inl UnicodeEncodeError, self, w\<lparr>stream_content := Some (content_of w)\<rparr>)
        else
        (let w1 = w\<lparr>stream_content := Some (content_of w @ json_dumps event @ [10])\<rparr>;
             self1 = self\<lparr>count := count self + 1\<rparr>
         in case upload_stream env self1 w1 of
              (Inl e, w2) \<Rightarrow> (Inl e, self1, w2)
            | (Inr _, w2) \<Rightarrow>
                if snapshot_every self1 = 0 then (Inl ZeroDivisionError, self1, w2)
                else if count self1 mod snapshot_every self1 = 0
                then (case bind_io (make_snapshot env self1 w2) (upload_snapshot env self1) of
                        (r, w3) \<Rightarrow> (r, self1, w3))
                else (Inr (), self1, w2)))"


text \<open>
  A sequence of calls to \<open>add\<close>, each with its own surroundings. The outcome of every
  call is kept, and the next call is made whatever it was, as by a caller that catches
  the exception of a call (the loop of \<open>extract_events\<close> does).
\<close>

fun adds ::
  "(call_env \<times> json) list \<Rightarrow> streamer \<times> world \<Rightarrow> (error + unit) list \<times> streamer \<times> world" where
  "adds [] s = ([], s)"
| "adds ((env, ev) # rest) s =
     (case add env ev s of
        (r, s1) \<Rightarrow> (case adds rest s1 of (rs, s2) \<Rightarrow> (r # rs, s2)))"

text \<open>The outcome of a call, and the calls of a sequence that are counted.\<close>

definition outcome :: "call_env \<times> json \<Rightarrow> error + unit" where
  "outcome call = (if writable (snd call) then Inr () else Inl UnicodeEncodeError)"

definition counted :: "(call_env \<times> json) list \<Rightarrow> (call_env \<times> json) list" where
  "counted es = filter (\<lambda>call. writable (snd call)) es"

definition line_of :: "call_env \<times> json \<Rightarrow> pystr" where
  "line_of call = json_dumps (snd call) @ [10]"

text \<open>
  The calls of a sequence that take a snapshot, when the counter starts at \<open>c\<close> and
  every call is counted: those at which the counter reaches a multiple of \<open>k\<close>.
\<close>

fun snapshot_calls :: "int \<Rightarrow> int \<Rightarrow> (call_env \<times> json) list \<Rightarrow> call_env list" where
  "snapshot_calls k c [] = []"
| "snapshot_calls k c ((env, ev) # rest) =
     (if (c + 1) mod k = 0 then [env] else []) @ snapshot_calls k (c + 1) rest"

text \<open>The number of lines of a text file: its newline characters.\<close>

definition line_count :: "pystr \<Rightarrow> nat" where
  "line_count t = length (filter (\<lambda>c. c = 10) t)"

section \<open>Text operations of Python used by the scrapers\<close>

definition starts_with :: "pystr \<Rightarrow> pystr \<Rightarrow> bool" where
  "starts_with sub s = (take (length sub) s = sub)"

text \<open>\<open>sub in s\<close> on texts.\<close>

fun contains :: "pystr \<Rightarrow> pystr \<Rightarrow> bool" where
  "contains sub [] = (sub = [])"
| "contains sub (c # cs) = (starts_with sub (c # cs) \<or> contains sub cs)"

text \<open>\<open>s.replace(old, new)\<close>: every occurrence, left to right, without overlap.\<close>

function py_replace :: "pystr \<Rightarrow> pystr \<Rightarrow> pystr \<Rightarrow> pystr" where
  "py_replace old new s =
     (if old = [] then new @ concat (map (\<lambda>c. c # new) s)
      else if s = [] then []
      else if starts_with old s then new @ py_replace old new (drop (length old) s)
      else hd s # py_replace old new (tl s))"
  by pat_completeness auto
termination
  by (relation "measure (\<lambda>(old, new, s). length s)") auto

declare py_replace.simps [simp del]

text \<open>\<open>str.isspace\<close> on one code point, and \<open>str.strip()\<close>.\<close>

definition py_isspace :: "nat \<Rightarrow> bool" where
  "py_isspace c =
     ((9 \<le> c \<and> c \<le> 13) \<or> (28 \<le> c \<and> c \<le> 32) \<or> c = 133 \<or> c = 160 \<or> c = 5760
      \<or> (8192 \<le> c \<and> c \<le> 8202) \<or> c = 8232 \<or> c = 8233 \<or> c = 8239 \<or> c = 8287
      \<or> c = 12288)"

definition strip_with :: "(nat \<Rightarrow> bool) \<Rightarrow> pystr \<Rightarrow> pystr" where
  "strip_with p s = rev (dropWhile p (rev (dropWhile p s)))"

definition py_strip :: "pystr \<Rightarrow> pystr" where
  "py_strip s = strip_with py_isspace s"

text \<open>\<open>re.sub(r"[ \t]+", " ", s)\<close>: each run of spaces and tabs becomes one space.\<close>

definition is_blank :: "nat \<Rightarrow> bool" where
  "is_blank c = (c = 32 \<or> c = 9)"

function collapse_blanks :: "pystr \<Rightarrow> pystr" where
  "collapse_blanks [] = []"
| "collapse_blanks (c # cs) =
     (if is_blank c then 32 # collapse_blanks (dropWhile is_blank cs)
      else c # collapse_blanks cs)"
  by pat_completeness auto
termination
  by (relation "measure length") (auto simp: length_dropWhile_le less_Suc_eq_le)

text \<open>
  \<open>_clean\<close> of \<open>flow_events.py\<close>. The Unicode normalisation
  \<open>unicodedata.normalize("NFKC", s)\<close> is a table of the standard library; it is the
  parameter \<open>nfkc\<close>. The characters stripped at both ends are space, tab, carriage
  return, newline, hyphen, bullet, asterisk, middle dot, colon and semicolon.
\<close>

definition clean_chars :: "nat list" where
  "clean_chars = [32, 9, 13, 10, 45, 8226, 42, 183, 58, 59]"

definition clean :: "(pystr \<Rightarrow> pystr) \<Rightarrow> pystr \<Rightarrow> pystr" where
  "clean nfkc s =
     (if s = [] then []
      else strip_with (\<lambda>c. c \<in> set clean_chars) (collapse_blanks (nfkc s)))"

section \<open>The parsed page (BeautifulSoup)\<close>

text \<open>
  The parser is a library; what the extractors read is its result. A tag has a name, its
  \<open>class\<close> attribute as the parser stores it (the list of its whitespace-separated
  values, \<open>None\<close> when the attribute is absent), its other attributes (a dictionary of
  texts) and its children; the other nodes are texts. Comments and the other special
  strings of the parser are left out of the tree: \<open>find\<close> and \<open>find_all\<close> by tag name
  pass over them and \<open>get_text\<close> skips them.
\<close>

datatype node =
    Tag pystr "pystr list option" "(pystr \<times> pystr) list" "node list"
  | NavigableString pystr

text \<open>All nodes below a tag, in document order (the order \<open>find\<close> and \<open>find_all\<close> search).\<close>

fun descendants :: "node \<Rightarrow> node list" where
  "descendants (NavigableString s) = []"
| "descendants (Tag n c a ch) = concat (map (\<lambda>x. x # descendants x) ch)"

text \<open>The nodes of a parsed document given by its top-level nodes.\<close>

definition soup_nodes :: "node list \<Rightarrow> node list" where
  "soup_nodes soup = concat (map (\<lambda>x. x # descendants x) soup)"

definition strings_of :: "node \<Rightarrow> pystr list" where
  "strings_of n =
     concat (map (\<lambda>x. case x of NavigableString s \<Rightarrow> [s] | Tag _ _ _ _ \<Rightarrow> []) (descendants n))"

text \<open>\<open>get_text()\<close> and \<open>get_text(strip=True)\<close>.\<close>

definition get_text :: "node \<Rightarrow> pystr" where
  "get_text n = concat (strings_of n)"

definition get_text_strip :: "node \<Rightarrow> pystr" where
  "get_text_strip n = concat (filter (\<lambda>s. s \<noteq> []) (map py_strip (strings_of n)))"

fun join_space :: "pystr list \<Rightarrow> pystr" where
  "join_space [] = []"
| "join_space [x] = x"
| "join_space (x # y # ys) = x @ [32] @ join_space (y # ys)"

text \<open>
  \<open>class_=q\<close>: some value of the class attribute is \<open>q\<close>, or the values joined by a
  space are \<open>q\<close>.
\<close>

definition has_class :: "pystr \<Rightarrow> node \<Rightarrow> bool" where
  "has_class q n =
     (case n of
        Tag _ (Some cs) _ _ \<Rightarrow> q \<in> set cs \<or> join_space cs = q
      | _ \<Rightarrow> False)"

definition is_tag :: "pystr \<Rightarrow> node \<Rightarrow> bool" where
  "is_tag name n = (case n of Tag m _ _ _ \<Rightarrow> m = name | NavigableString _ \<Rightarrow> False)"

definition attr :: "pystr \<Rightarrow> node \<Rightarrow> pystr option" where
  "attr k n = (case n of Tag _ _ as _ \<Rightarrow> map_of as k | NavigableString _ \<Rightarrow> None)"

text \<open>\<open>tag.get(k, '')\<close>.\<close>

definition attr_or_empty :: "pystr \<Rightarrow> node \<Rightarrow> pystr" where
  "attr_or_empty k n = (case attr k n of None \<Rightarrow> [] | Some v \<Rightarrow> v)"

text \<open>\<open>href=lambda x: x and p(x)\<close>: the attribute is present, not empty, and satisfies \<open>p\<close>.\<close>

definition href_with :: "(pystr \<Rightarrow> bool) \<Rightarrow> node \<Rightarrow> bool" where
  "href_with p n = (case attr (U ''href'') n of None \<Rightarrow> False | Some h \<Rightarrow> h \<noteq> [] \<and> p h)"

definition find_all :: "pystr \<Rightarrow> (node \<Rightarrow> bool) \<Rightarrow> node list \<Rightarrow> node list" where
  "find_all name p ns = filter (\<lambda>n. is_tag name n \<and> p n) ns"

definition find_tag :: "pystr \<Rightarrow> (node \<Rightarrow> bool) \<Rightarrow> node list \<Rightarrow> node option" where
  "find_tag name p ns = List.find (\<lambda>n. is_tag name n \<and> p n) ns"

section \<open>Python dictionaries\<close>

text \<open>\<open>d[k] = v\<close>: a present key keeps its place, a new key goes to the end.\<close>

fun dict_set :: "pystr \<Rightarrow> 'v \<Rightarrow> (pystr \<times> 'v) list \<Rightarrow> (pystr \<times> 'v) list" where
  "dict_set k v [] = [(k, v)]"
| "dict_set k v ((k', v') # d) = (if k' = k then (k, v) # d else (k', v') # dict_set k v d)"

section \<open>The selectors and constants of the extractors\<close>

definition BASE :: pystr where
  "BASE = U ''https://www.flowagility.com''"

definition tag_div :: pystr where "tag_div = U ''div''"

definition tag_a :: pystr where "tag_a = U ''a''"

definition cls_container :: pystr where
  "cls_container = U ''group mb-6''"

definition cls_name :: pystr where
  "cls_name = U ''font-caption text-lg text-black truncate -mt-1''"

definition cls_small :: pystr where
  "cls_small = U ''text-xs''"

definition cls_club :: pystr where
  "cls_club = U ''text-xs mb-0.5 mt-0.5''"

definition cls_info :: pystr where
  "cls_info = U ''relative flex flex-col w-full pt-1 pb-6 mb-4 border-b border-gray-300''"

definition cls_status :: pystr where
  "cls_status = U ''py-1 px-4 border text-white font-bold rounded text-sm''"

definition cls_flag :: pystr where
  "cls_flag = U ''text-md''"

definition Spain :: pystr where "Spain = U ''Spain''"

definition Espana :: pystr where "Espana = U ''Espa'' @ [241] @ U ''a''"

text \<open>The flag glyph: the regional indicators E and S.\<close>

definition flag_es :: pystr where "flag_es = [127466, 127480]"

section \<open>The streaming extractor (\<open>flow_events.py\<close>, the body of the loop of \<open>extract_events\<close>)\<close>

text \<open>
  \<open>urljoin\<close> is a function of the standard library, which raises \<open>ValueError\<close> on some
  malformed references; it is the parameter \<open>urljoin\<close>, with its failure as a result.
  An event is the dictionary the code builds.
\<close>

type_synonym event = "(pystr \<times> json) list"

text \<open>\<open>if x: ev[k] = v\<close>, for a value that may be missing.\<close>

definition set_opt :: "pystr \<Rightarrow> pystr option \<Rightarrow> event \<Rightarrow> event" where
  "set_opt k vo ev = (case vo of None \<Rightarrow> ev | Some v \<Rightarrow> dict_set k (JStr v) ev)"

text \<open>The fields set before the links, in the order of the source.\<close>

definition item_fields :: "(pystr \<Rightarrow> pystr) \<Rightarrow> node \<Rightarrow> event" where
  "item_fields nfkc c =
     (let ds = descendants c;
          event_id = attr_or_empty (U ''id'') c;
          ev = set_opt (U ''id'')
                 (if event_id \<noteq> [] then Some (py_replace (U ''event-card-'') [] event_id) else None)
                 [];
          ev = set_opt (U ''nombre'')
                 (map_option (\<lambda>e. clean nfkc (get_text e)) (find_tag tag_div (has_class cls_name) ds))
                 ev;
          ev = set_opt (U ''fechas'')
                 (map_option (\<lambda>e. clean nfkc (get_text e)) (find_tag tag_div (has_class cls_small) ds))
                 ev;
          org_elems = find_all tag_div (has_class cls_small) ds;
          ev = set_opt (U ''organizacion'')
                 (if length org_elems > 1 then Some (clean nfkc (get_text (org_elems ! 1))) else None)
                 ev;
          texts = map (\<lambda>d. clean nfkc (get_text d)) org_elems;
          ev = set_opt (U ''club'')
                 (case find_tag tag_div (has_class cls_club) ds of
                    Some e \<Rightarrow> Some (clean nfkc (get_text e))
                  | None \<Rightarrow>
                      List.find
                        (\<lambda>t. t \<noteq> [] \<and> \<not> list_ex (\<lambda>x. contains x t) [U ''/'', Spain, Espana])
                        texts)
                 ev;
          ev = set_opt (U ''lugar'')
                 (List.find
                    (\<lambda>t. contains (U ''/'') t \<and>
                         list_ex (\<lambda>x. contains x t) [Spain, Espana, U ''Madrid'', U ''Barcelona''])
                    texts)
                 ev;
          ev = (if map_of ev (U ''lugar'') = None
                then set_opt (U ''lugar'')
                       (List.find (\<lambda>t. contains (U ''/'') t \<and> length t < 100) texts) ev
                else ev)
      in ev)"

text \<open>
  The links. \<open>ev['enlaces']\<close> is created empty and filled in place; here it is built
  and then stored, which gives the same dictionary.
\<close>

definition participant_links :: "node \<Rightarrow> node list" where
  "participant_links c =
     find_all tag_a
       (href_with (\<lambda>x. list_ex (\<lambda>term. contains term x) [U ''/participants'', U ''/participantes'']))
       (descendants c)"

definition canonical_participants :: "pystr \<Rightarrow> pystr" where
  "canonical_participants i = BASE @ U ''/zone/events/'' @ i @ U ''/participants_list''"

definition item_links ::
  "(pystr \<Rightarrow> pystr \<Rightarrow> error + pystr) \<Rightarrow> node \<Rightarrow> event \<Rightarrow> error + event" where
  "item_links urljoin c ev =
     (case (case find_tag tag_a (href_with (contains (U ''/info/''))) (descendants c) of
              None \<Rightarrow> Inr []
            | Some info_link \<Rightarrow>
                (case urljoin BASE (attr_or_empty (U ''href'') info_link) of
                   Inl e \<Rightarrow> Inl e
                 | Inr u \<Rightarrow> Inr (dict_set (U ''info'') (JStr u) []))) of
        Inl e \<Rightarrow> Inl e
      | Inr enlaces \<Rightarrow>
          (case List.find
                  (\<lambda>lk. contains (U ''/participants_list'') (attr_or_empty (U ''href'') lk)
                        \<or> contains (U ''/participantes'') (attr_or_empty (U ''href'') lk))
                  (participant_links c) of
             Some lk \<Rightarrow>
               (case urljoin BASE (attr_or_empty (U ''href'') lk) of
                  Inl e \<Rightarrow> Inl e
                | Inr u \<Rightarrow> Inr (dict_set (U ''participantes'') (JStr u) enlaces))
           | None \<Rightarrow>
               (case map_of ev (U ''id'') of
                  Some (JStr i) \<Rightarrow>
                    Inr (dict_set (U ''participantes'') (JStr (canonical_participants i)) enlaces)
                | _ \<Rightarrow> Inr enlaces)))"

definition extract_events_item ::
  "(pystr \<Rightarrow> pystr) \<Rightarrow> (pystr \<Rightarrow> pystr \<Rightarrow> error + pystr) \<Rightarrow> node \<Rightarrow> error + event" where
  "extract_events_item nfkc urljoin c =
     (let ev = item_fields nfkc c
      in case item_links urljoin c ev of
           Inl e \<Rightarrow> Inl e
         | Inr enlaces \<Rightarrow>
             Inr (set_opt (U ''pais_bandera'')
                    (Some (case find_tag tag_div (has_class cls_flag) (descendants c) of
                             Some flag_elem \<Rightarrow> clean nfkc (get_text flag_elem)
                           | None \<Rightarrow> flag_es))
                    (dict_set (U ''enlaces'') (JObj enlaces) ev)))"

section \<open>The extractor of past events (\<open>01EventosPast.py\<close>, \<open>extract_event_details\<close>)\<close>

text \<open>
  The argument is the parse of \<open>container_html\<close>, given by its top-level nodes. The
  fields read inside the information block, in the order of the source.
\<close>

definition info_fields :: "node \<Rightarrow> event \<Rightarrow> event" where
  "info_fields info_div ev0 =
     (let ds = descendants info_div;
          date_elems = find_all tag_div (has_class cls_small) ds;
          ev = set_opt (U ''fechas'')
                 (if date_elems \<noteq> [] then Some (get_text_strip (date_elems ! 0)) else None) ev0;
          ev = set_opt (U ''organizacion'')
                 (if length date_elems > 1 then Some (get_text_strip (date_elems ! 1)) else None) ev;
          ev = set_opt (U ''nombre'')
                 (map_option get_text_strip (find_tag tag_div (has_class cls_name) ds)) ev;
          ev = set_opt (U ''club'')
                 (map_option get_text_strip (find_tag tag_div (has_class cls_club) ds)) ev;
          ev = set_opt (U ''lugar'')
                 (List.find
                    (\<lambda>t. contains (U ''/'') t \<and> (contains Spain t \<or> contains Espana t))
                    (map get_text_strip date_elems))
                 ev
      in ev)"

definition status_fields :: "node list \<Rightarrow> event \<Rightarrow> event" where
  "status_fields ns ev =
     (case find_tag tag_div (has_class cls_status) ns of
        Some status_button \<Rightarrow>
          (let estado = get_text_strip status_button
           in set_opt (U ''estado_tipo'')
                (Some (if contains (U ''Finalizado'') estado \<or> contains (U ''Completado'') estado
                       then U ''finalizado'' else U ''desconocido''))
                (set_opt (U ''estado'') (Some estado) ev))
      | None \<Rightarrow>
          set_opt (U ''estado_tipo'') (Some (U ''finalizado''))
            (set_opt (U ''estado'') (Some (U ''Finalizado'')) ev))"

text \<open>One link: the first anchor whose \<open>href\<close> contains the path, resolved against \<open>BASE\<close>.\<close>

definition add_link ::
  "(pystr \<Rightarrow> pystr \<Rightarrow> error + pystr) \<Rightarrow> node list \<Rightarrow> pystr \<Rightarrow> pystr \<Rightarrow> event \<Rightarrow> error + event" where
  "add_link urljoin ns path key enlaces =
     (case find_tag tag_a (href_with (contains path)) ns of
        None \<Rightarrow> Inr enlaces
      | Some link \<Rightarrow>
          (case urljoin BASE (attr_or_empty (U ''href'') link) of
             Inl e \<Rightarrow> Inl e
           | Inr u \<Rightarrow> Inr (dict_set key (JStr u) enlaces)))"

definition details_links ::
  "(pystr \<Rightarrow> pystr \<Rightarrow> error + pystr) \<Rightarrow> node list \<Rightarrow> error + event" where
  "details_links urljoin ns =
     (case add_link urljoin ns (U ''/info/'') (U ''info'') [] of
        Inl e \<Rightarrow> Inl e
      | Inr e1 \<Rightarrow>
          (case add_link urljoin ns (U ''/participants_list'') (U ''participantes'') e1 of
             Inl e \<Rightarrow> Inl e
           | Inr e2 \<Rightarrow> add_link urljoin ns (U ''/runs'') (U ''runs'') e2))"

definition extract_event_details ::
  "(pystr \<Rightarrow> pystr \<Rightarrow> error + pystr) \<Rightarrow> node list \<Rightarrow> error + event" where
  "extract_event_details urljoin soup =
     (let ns = soup_nodes soup;
          ev = set_opt (U ''id'')
                 (map_option (attr_or_empty (U ''id'')) (find_tag tag_div (has_class cls_container) ns))
                 [];
          ev = (case find_tag tag_div (has_class cls_info) ns of
                  Some info_div \<Rightarrow> info_fields info_div ev
                | None \<Rightarrow> ev);
          ev = status_fields ns ev
      in case details_links urljoin ns of
           Inl e \<Rightarrow> Inl e
         | Inr enlaces \<Rightarrow>
             Inr (set_opt (U ''tipo'') (Some (U ''pasado''))
                    (set_opt (U ''pais_bandera'')
                       (map_option get_text_strip (find_tag tag_div (has_class cls_flag) ns))
                       (dict_set (U ''enlaces'') (JObj enlaces) ev))))"

section \<open>The scenario container\<close>

definition name_node :: node where
  "name_node =
     Tag tag_div
       (Some [U ''font-caption'', U ''text-lg'', U ''text-black'', U ''truncate'', U ''-mt-1''])
       [] [NavigableString (U ''  Spring  Trial  '')]"

definition info_node :: node where
  "info_node =
     Tag tag_div
       (Some [U ''relative'', U ''flex'', U ''flex-col'', U ''w-full'', U ''pt-1'', U ''pb-6'',
              U ''mb-4'', U ''border-b'', U ''border-gray-300''])
       [] [name_node]"

definition status_node :: node where
  "status_node =
     Tag tag_div
       (Some [U ''py-1'', U ''px-4'', U ''border'', U ''text-white'', U ''font-bold'',
              U ''rounded'', U ''text-sm''])
       [] [NavigableString (U ''Finalizado'')]"

definition scenario :: node where
  "scenario =
     Tag tag_div (Some [U ''group'', U ''mb-6'']) [(U ''id'', U ''event-card-abc123'')]
       [info_node, status_node]"

text \<open>A stand-in for \<open>urljoin\<close> on absolute paths, and one that fails on one reference.\<close>

definition join_base :: "pystr \<Rightarrow> pystr \<Rightarrow> error + pystr" where
  "join_base b h = Inr (b @ h)"

definition join_strict :: "pystr \<Rightarrow> pystr \<Rightarrow> error + pystr" where
  "join_strict b h = (if h = U ''//[/info/'' then Inl ValueError else Inr (b @ h))"

definition bad_anchor :: node where
  "bad_anchor = Tag tag_a None [(U ''href'', U ''//[/info/'')] []"

text \<open>Three containers: one holding that anchor, one holding a text only, one with an id only.\<close>

definition bad_container :: node where
  "bad_container = Tag tag_div (Some [U ''group'', U ''mb-6'']) [] [bad_anchor]"

definition bare_container :: node where
  "bare_container = Tag tag_div (Some [U ''group'', U ''mb-6'']) [] [NavigableString (U ''n/a'')]"

definition id_container :: node where
  "id_container = Tag tag_div (Some [U ''group'', U ''mb-6'']) [(U ''id'', U ''event-card-abc123'')] []"

text \<open>
  A container, or a parsed document, in which no field rule that searches for a node
  finds one. The rule of the id searches nothing below the container: the streaming
  extractor reads the attribute of the container it is given, and
  \<open>extract_event_details\<close> that of the first container of the document, so a container
  satisfies both conditions whatever its id.
\<close>

definition no_recognised_item :: "node \<Rightarrow> bool" where
  "no_recognised_item c =
     (let ds = descendants c
      in find_tag tag_div (has_class cls_name) ds = None
         \<and> find_tag tag_div (has_class cls_small) ds = None
         \<and> find_tag tag_div (has_class cls_club) ds = None
         \<and> find_tag tag_div (has_class cls_flag) ds = None
         \<and> find_tag tag_a (href_with (contains (U ''/info/''))) ds = None
         \<and> participant_links c = [])"

definition no_recognised_details :: "node list \<Rightarrow> bool" where
  "no_recognised_details soup =
     (let ns = soup_nodes soup
      in find_tag tag_div (has_class cls_info) ns = None
         \<and> find_tag tag_div (has_class cls_status) ns = None
         \<and> find_tag tag_div (has_class cls_flag) ns = None
         \<and> find_tag tag_a (href_with (contains (U ''/info/''))) ns = None
         \<and> find_tag tag_a (href_with (contains (U ''/participants_list''))) ns = None
         \<and> find_tag tag_a (href_with (contains (U ''/runs''))) ns = None)"

text \<open>
  The records returned for them. The streaming extractor, given the id attribute of the
  container (empty when absent): with no id, the empty links and the default flag; with
  an id, also the id without its prefix and the participants link built from it.
  \<open>extract_event_details\<close>, given the id attribute of the first container of the
  document (\<open>None\<close> when the document has no container): the id when there is a
  container, then the default status, its kind, the empty links and the type.
\<close>

definition default_item :: "pystr \<Rightarrow> event" where
  "default_item event_id =
     (if event_id = []
      then [(U ''enlaces'', JObj []), (U ''pais_bandera'', JStr flag_es)]
      else [(U ''id'', JStr (py_replace (U ''event-card-'') [] event_id)),
            (U ''enlaces'',
             JObj [(U ''participantes'',
                    JStr (canonical_participants (py_replace (U ''event-card-'') [] event_id)))]),
            (U ''pais_bandera'', JStr flag_es)])"

definition default_details :: "pystr option \<Rightarrow> event" where
  "default_details event_id =
     (case event_id of None \<Rightarrow> [] | Some i \<Rightarrow> [(U ''id'', JStr i)])
     @ [(U ''estado'', JStr (U ''Finalizado'')), (U ''estado_tipo'', JStr (U ''finalizado'')),
        (U ''enlaces'', JObj []), (U ''tipo'', JStr (U ''pasado''))]"

section \<open>Session handling (\<open>01EventosPast.py\<close>)\<close>

text \<open>
  The browser shows a page; the site answers each login attempt. An attempt fails with
  \<open>TimeoutException\<close> when the e-mail field does not appear or when the address still
  holds the login path after the wait, with \<open>NoSuchElementException\<close> when the password
  field or the submit button is missing; otherwise \<open>_login\<close> returns, and the browser is
  on the address given (the one read by the next \<open>_is_login_page\<close>).
\<close>

datatype login_outcome =
    EmailFieldTimeout
  | ElementMissing
  | RedirectTimeout
  | Redirected pystr

record browser =
  current_url :: pystr
  attempts :: nat

definition login_url :: pystr where
  "login_url = BASE @ U ''/user/login''"

definition is_login_page :: "browser \<Rightarrow> bool" where
  "is_login_page b = contains (U ''/user/login'') (current_url b)"

text \<open>\<open>_login\<close>: no exception is caught in it.\<close>

definition login :: "(nat \<Rightarrow> login_outcome) \<Rightarrow> browser \<Rightarrow> (error + unit) \<times> browser" where
  "login site b =
     (let b1 = b\<lparr>current_url := login_url, attempts := Suc (attempts b)\<rparr>
      in case site (attempts b) of
           EmailFieldTimeout \<Rightarrow> (Inl TimeoutException, b1)
         | ElementMissing \<Rightarrow> (Inl NoSuchElementException, b1)
         | RedirectTimeout \<Rightarrow> (Inl TimeoutException, b1)
         | Redirected url \<Rightarrow> (Inr (), b1\<lparr>current_url := url\<rparr>))"

text \<open>\<open>_ensure_logged_in\<close>: the loop over \<open>range(max_tries)\<close>.\<close>

fun ensure_logged_in_loop ::
  "(nat \<Rightarrow> login_outcome) \<Rightarrow> nat \<Rightarrow> browser \<Rightarrow> (error + bool) \<times> browser" where
  "ensure_logged_in_loop site 0 b = (Inr False, b)"
| "ensure_logged_in_loop site (Suc n) b =
     (if \<not> is_login_page b then (Inr True, b)
      else case login site b of
             (Inl e, b1) \<Rightarrow> (Inl e, b1)
           | (Inr _, b1) \<Rightarrow>
               if \<not> is_login_page b1 then (Inr True, b1)
               else ensure_logged_in_loop site n b1)"

definition ensure_logged_in ::
  "(nat \<Rightarrow> login_outcome) \<Rightarrow> int \<Rightarrow> browser \<Rightarrow> (error + bool) \<times> browser" where
  "ensure_logged_in site max_tries b = ensure_logged_in_loop site (nat max_tries) b"

definition on_login_page :: browser where
  "on_login_page = \<lparr>current_url = login_url, attempts = 0\<rparr>"

section \<open>The page-advance loop (\<open>01EventosPast.py\<close>, \<open>_handle_pagination\<close>)\<close>

text \<open>
  What the site shows after \<open>n\<close> advances is a page view: the address of the browser,
  the heights that the successive reads of \<open>document.body.scrollHeight\<close> give, the parsed
  page (or the exception of the driver while the page is scrolled and read), and what
  the attempt to advance does: the wait for a clickable next control times out, the
  click raises, the wait for the containers of the next page times out, or the next
  page is there.
\<close>

datatype nav_outcome = NextNotFound | ClickFailed | ContentTimeout | NextPageLoaded

record page_view =
  page_url :: pystr
  heights :: "nat \<Rightarrow> int"
  source :: "error + node list"
  next_control :: nav_outcome

text \<open>
  The calls made to the driver, in order. \<open>CurrentUrl\<close> is the read that
  \<open>_is_login_page\<close> makes and \<open>Get\<close> the navigation that \<open>_login\<close> makes.
\<close>

datatype driver_call =
  ExecuteScript | PageSource | WaitClickable | Click | WaitPresence | CurrentUrl | Get

definition MAX_SCROLLS :: nat where
  "MAX_SCROLLS = 10"

definition max_pages :: nat where
  "max_pages = 50"

text \<open>\<open>_full_scroll\<close>: the number of rounds made, each one scroll and one read.\<close>

fun full_scroll_loop :: "(nat \<Rightarrow> int) \<Rightarrow> nat \<Rightarrow> nat \<Rightarrow> int \<Rightarrow> nat" where
  "full_scroll_loop hs 0 i last_h = i"
| "full_scroll_loop hs (Suc r) i last_h =
     (if hs i = last_h then Suc i else full_scroll_loop hs r (Suc i) (hs i))"

definition full_scroll :: "(nat \<Rightarrow> int) \<Rightarrow> nat" where
  "full_scroll hs = full_scroll_loop hs MAX_SCROLLS 0 0"

text \<open>
  The containers of one page: each is printed and parsed again, which gives a document
  whose only top-level node is the container; a container whose extraction raises is
  skipped.
\<close>

definition page_events :: "(pystr \<Rightarrow> pystr \<Rightarrow> error + pystr) \<Rightarrow> node list \<Rightarrow> event list" where
  "page_events urljoin soup =
     concat (map (\<lambda>container. case extract_event_details urljoin [container] of
                                 Inr event_data \<Rightarrow> [event_data]
                               | Inl e \<Rightarrow> [])
                 (find_all tag_div (has_class cls_container) (soup_nodes soup)))"

record pstate =
  events_data :: "event list"
  page_count :: nat
  driver_calls :: "driver_call list"

text \<open>
  The parts of one round: the count is advanced and the page scrolled and read; the
  events of the page are appended; calls are made to the driver.
\<close>

definition scroll_and_read :: "page_view \<Rightarrow> pstate \<Rightarrow> pstate" where
  "scroll_and_read view st =
     st\<lparr>page_count := page_count st + 1,
        driver_calls := driver_calls st
          @ replicate (2 * full_scroll (heights view)) ExecuteScript @ [PageSource]\<rparr>"

definition collect :: "(pystr \<Rightarrow> pystr \<Rightarrow> error + pystr) \<Rightarrow> node list \<Rightarrow> pstate \<Rightarrow> pstate" where
  "collect urljoin soup st = st\<lparr>events_data := events_data st @ page_events urljoin soup\<rparr>"

definition called :: "driver_call list \<Rightarrow> pstate \<Rightarrow> pstate" where
  "called cs st = st\<lparr>driver_calls := driver_calls st @ cs\<rparr>"

text \<open>
  The loop. Both handlers of the navigation block leave the loop; an exception of the
  driver outside that block leaves the function.
\<close>

function handle_pagination_loop ::
  "(pystr \<Rightarrow> pystr \<Rightarrow> error + pystr) \<Rightarrow> (nat \<Rightarrow> page_view) \<Rightarrow> pstate \<Rightarrow> (error + unit) \<times> pstate" where
  "handle_pagination_loop urljoin site st =
     (if page_count st < max_pages
      then (let view = site (page_count st);
                st1 = scroll_and_read view st
            in case source view of
                 Inl e \<Rightarrow> (Inl e, st1)
               | Inr soup \<Rightarrow>
                   (let st2 = collect urljoin soup st1
                    in case next_control view of
                         NextNotFound \<Rightarrow> (Inr (), called [WaitClickable] st2)
                       | ClickFailed \<Rightarrow> (Inr (), called [WaitClickable, Click] st2)
                       | ContentTimeout \<Rightarrow>
                           (Inr (), called [WaitClickable, Click, WaitPresence] st2)
                       | NextPageLoaded \<Rightarrow>
                           handle_pagination_loop urljoin site
                             (called [WaitClickable, Click, WaitPresence] st2)))
      else (Inr (), st))"
  by pat_completeness auto
termination
  by (relation "measure (\<lambda>(urljoin, site, st). max_pages - page_count st)")
     (auto simp: called_def collect_def scroll_and_read_def)

declare handle_pagination_loop.simps [simp del]

definition handle_pagination ::
  "(pystr \<Rightarrow> pystr \<Rightarrow> error + pystr) \<Rightarrow> (nat \<Rightarrow> page_view) \<Rightarrow> (error + event list) \<times> pstate" where
  "handle_pagination urljoin site =
     (case handle_pagination_loop urljoin site \<lparr>events_data = [], page_count = 0, driver_calls = []\<rparr> of
        (Inl e, st) \<Rightarrow> (Inl e, st)
      | (Inr _, st) \<Rightarrow> (Inr (events_data st), st))"

section \<open>Concrete sites used in the examples\<close>

definition EVENTS_URL :: pystr where
  "EVENTS_URL = BASE @ U ''/zone/events/past''"

definition still_page :: page_view where
  "still_page = \<lparr>page_url = EVENTS_URL, heights = (\<lambda>i. 0), source = Inr [bare_container],
                 next_control = NextPageLoaded\<rparr>"

text \<open>A site whose next control is always there and always works.\<close>

definition site_endless :: "nat \<Rightarrow> page_view" where
  "site_endless n = still_page"

text \<open>A site of two pages whose session has expired: the second page is the login page.\<close>

definition site_expired :: "nat \<Rightarrow> page_view" where
  "site_expired n =
     (if n = 0 then still_page
      else still_page\<lparr>page_url := login_url, next_control := NextNotFound\<rparr>)"

definition bare_event :: event where
  "bare_event =
     [(U ''id'', JStr []), (U ''estado'', JStr (U ''Finalizado'')),
      (U ''estado_tipo'', JStr (U ''finalizado'')), (U ''enlaces'', JObj []),
      (U ''tipo'', JStr (U ''pasado''))]"

section \<open>Concrete surroundings used in the examples\<close>

definition env0 :: call_env where
  "env0 = \<lparr>ts_day = U ''20250904'', ts_full = U ''20250904_120000'',
           run_stream = Completed 0 [] [], run_snap = Completed 1 [] (U ''denied'')\<rparr>"



definition world0 :: world where
  "world0 = \<lparr>stream_content = None, snapshot_dir = [], snapshot_writes = [],
              uploader_exists = False, runs = [], console = []\<rparr>"

text \<open>The world after the construction of a streamer in \<open>world0\<close>.\<close>

definition world1 :: world where
  "world1 = world0\<lparr>stream_content := Some [], console := [UploaderNotFound]\<rparr>"

definition world_old :: world where
  "world_old = \<lparr>stream_content = Some (json_dumps (JObj []) @ [10]), snapshot_dir = [],
                 snapshot_writes = [], uploader_exists = False, runs = [], console = []\<rparr>"

definition streamer10 :: streamer where
  "streamer10 = \<lparr>out_dir = [], stream_file = [], snapshot_every = 10, count = 0,
                  uploader = U ''scripts/upload_event.sh''\<rparr>"

text \<open>A record one of whose texts is a lone surrogate.\<close>

definition surrogate_event :: json where
  "surrogate_event = JObj [(U ''nombre'', JStr [55296])]"

section \<open>Properties of the serialisation\<close>

lemma escape_char_no_nl: "10 \<notin> set (escape_char c)"
  by (simp add: escape_char_def hexdigit_def)

lemma encode_basestring_no_nl: "10 \<notin> set (encode_basestring s)"
  by (simp add: encode_basestring_def escape_char_no_nl)

lemma join_items_no_nl: "(\<And>x. x \<in> set xs \<Longrightarrow> 10 \<notin> set x) \<Longrightarrow> 10 \<notin> set (join_items xs)"
  by (induction xs rule: join_items.induct) auto

lemma json_dumps_no_nl: "10 \<notin> set (json_dumps j)"
proof (induction j)
  case (JStr s)
  show ?case by (simp add: encode_basestring_no_nl)
next
  case (JObj kvs)
  have "10 \<notin> set (join_items (map (\<lambda>(k, d). encode_basestring k @ [58, 32] @ d)
                     (map (map_prod id json_dumps) kvs)))"
  proof (rule join_items_no_nl)
    fix x assume "x \<in> set (map (\<lambda>(k, d). encode_basestring k @ [58, 32] @ d)
                     (map (map_prod id json_dumps) kvs))"
    then obtain k v where kv: "(k, v) \<in> set kvs" and x: "x = encode_basestring k @ [58, 32] @ json_dumps v"
      by auto
    from kv JObj have "10 \<notin> set (json_dumps v)" by fastforce
    with x show "10 \<notin> set x" by (simp add: encode_basestring_no_nl)
  qed
  then show ?case by simp
qed

lemma line_count_append: "line_count (a @ b) = line_count a + line_count b"
  by (simp add: line_count_def)

lemma line_count_line: "line_count (json_dumps j @ [10]) = 1"
proof -
  have "filter (\<lambda>c. c = 10) (json_dumps j) = []"
    using json_dumps_no_nl [of j] by (auto simp: filter_empty_conv)
  then show ?thesis by (simp add: line_count_def)
qed

section \<open>Properties of the streamer\<close>

lemma utf8_encodable_append [simp]:
  "utf8_encodable (a @ b) \<longleftrightarrow> utf8_encodable a \<and> utf8_encodable b"
  by (simp add: utf8_encodable_def)

lemma writable_iff: "writable ev \<longleftrightarrow> utf8_encodable (json_dumps ev)"
  by (simp add: writable_def) (simp add: utf8_encodable_def)

lemma names_write_file: "fst ` set (write_file name c fs) = insert name (fst ` set fs)"
proof (induction fs)
  case Nil
  show ?case by simp
next
  case (Cons f fs)
  obtain n c' where f: "f = (n, c')" by (cases f)
  show ?case
  proof (cases "n = name")
    case True
    with f show ?thesis by simp
  next
    case False
    with f Cons show ?thesis by (simp add: insert_commute)
  qed
qed

lemma map_of_write_file:
  "map_of (write_file name c fs) n = (if n = name then Some c else map_of fs n)"
  by (induction fs) auto

lemma safe_run_result:
  "\<exists>rc w1. safe_run cmd r w = (Inr rc, w1) \<and> stream_content w1 = stream_content w
     \<and> snapshot_dir w1 = snapshot_dir w \<and> snapshot_writes w1 = snapshot_writes w
     \<and> uploader_exists w1 = uploader_exists w \<and> runs w1 = runs w @ [cmd]"
  by (cases r) (simp_all add: safe_run_def subprocess_run_def)

lemma upload_stream_result:
  "\<exists>w1. upload_stream env self w = (Inr (), w1) \<and> stream_content w1 = stream_content w
     \<and> snapshot_dir w1 = snapshot_dir w \<and> snapshot_writes w1 = snapshot_writes w
     \<and> uploader_exists w1 = uploader_exists w
     \<and> (\<not> uploader_exists w \<longrightarrow> w1 = w)"
proof (cases "uploader_exists w")
  case False
  then show ?thesis by (simp add: upload_stream_def)
next
  case True
  obtain rc w1 where "safe_run [U ''bash'', uploader self, stream_file self,
                        U ''events_stream_'' @ ts_day env @ U ''.jsonl''] (run_stream env) w = (Inr rc, w1)"
    and "stream_content w1 = stream_content w" "snapshot_dir w1 = snapshot_dir w"
        "snapshot_writes w1 = snapshot_writes w" "uploader_exists w1 = uploader_exists w"
    using safe_run_result by blast
  with True show ?thesis by (simp add: upload_stream_def bind_io_def)
qed

lemma upload_snapshot_result:
  "\<exists>w1. upload_snapshot env self name w = (Inr (), w1) \<and> stream_content w1 = stream_content w
     \<and> snapshot_dir w1 = snapshot_dir w \<and> snapshot_writes w1 = snapshot_writes w
     \<and> uploader_exists w1 = uploader_exists w
     \<and> (\<not> uploader_exists w \<longrightarrow> w1 = w)"
proof (cases "uploader_exists w")
  case False
  then show ?thesis by (simp add: upload_snapshot_def)
next
  case True
  obtain rc w1 where "safe_run [U ''bash'', uploader self, path_join (out_dir self) name, name]
                       (run_snap env) w = (Inr rc, w1)"
    and "stream_content w1 = stream_content w" "snapshot_dir w1 = snapshot_dir w"
        "snapshot_writes w1 = snapshot_writes w" "uploader_exists w1 = uploader_exists w"
    using safe_run_result by blast
  with True show ?thesis by (simp add: upload_snapshot_def bind_io_def)
qed

lemma snapshot_step:
  assumes "stream_content w = Some c"
  shows "\<exists>w1. bind_io (make_snapshot env self w) (upload_snapshot env self) = (Inr (), w1)
           \<and> stream_content w1 = Some c
           \<and> snapshot_dir w1 = write_file (snapshot_name env) c (snapshot_dir w)
           \<and> snapshot_writes w1 = snapshot_writes w @ [snapshot_name env]
           \<and> uploader_exists w1 = uploader_exists w
           \<and> (\<not> uploader_exists w \<longrightarrow> runs w1 = runs w)"
proof -
  let ?w = "w\<lparr>snapshot_dir := write_file (snapshot_name env) c (snapshot_dir w),
              snapshot_writes := snapshot_writes w @ [snapshot_name env]\<rparr>"
  have m: "make_snapshot env self w = (Inr (snapshot_name env), ?w)"
    using assms by (simp add: make_snapshot_def)
  obtain w1 where "upload_snapshot env self (snapshot_name env) ?w = (Inr (), w1)"
    and "stream_content w1 = stream_content ?w" "snapshot_dir w1 = snapshot_dir ?w"
        "snapshot_writes w1 = snapshot_writes ?w"
        "uploader_exists w1 = uploader_exists ?w" "\<not> uploader_exists ?w \<longrightarrow> w1 = ?w"
    using upload_snapshot_result by blast
  with m assms show ?thesis by (auto simp add: bind_io_def)
qed

lemma add_unwritable:
  "\<not> writable ev \<Longrightarrow>
   add env ev (self, w) = (Inl UnicodeEncodeError, self, w\<lparr>stream_content := Some (content_of w)\<rparr>)"
  by (simp add: add_def)

lemma add_result:
  assumes k: "snapshot_every self \<noteq> 0" and wr: "writable ev"
  shows "\<exists>w1. add env ev (self, w) = (Inr (), self\<lparr>count := count self + 1\<rparr>, w1)
           \<and> stream_content w1 = Some (content_of w @ json_dumps ev @ [10])
           \<and> snapshot_writes w1 = snapshot_writes w @
                (if (count self + 1) mod snapshot_every self = 0 then [snapshot_name env] else [])
           \<and> snapshot_files w1 = snapshot_files w \<union>
                (if (count self + 1) mod snapshot_every self = 0 then {snapshot_name env} else {})
           \<and> (\<forall>n. map_of (snapshot_dir w1) n =
                  (if (count self + 1) mod snapshot_every self = 0 \<and> n = snapshot_name env
                   then Some (content_of w @ json_dumps ev @ [10]) else map_of (snapshot_dir w) n))
           \<and> uploader_exists w1 = uploader_exists w
           \<and> (\<not> uploader_exists w \<longrightarrow> runs w1 = runs w)"
proof -
  let ?c = "content_of w @ json_dumps ev @ [10]"
  let ?w1 = "w\<lparr>stream_content := Some ?c\<rparr>"
  let ?self1 = "self\<lparr>count := count self + 1\<rparr>"
  obtain w2 where u: "upload_stream env ?self1 ?w1 = (Inr (), w2)"
    and w2: "stream_content w2 = Some ?c" "snapshot_dir w2 = snapshot_dir w"
        "snapshot_writes w2 = snapshot_writes w"
        "uploader_exists w2 = uploader_exists w" "\<not> uploader_exists w \<longrightarrow> runs w2 = runs w"
    using upload_stream_result [of env ?self1 ?w1] by auto
  show ?thesis
  proof (cases "(count self + 1) mod snapshot_every self = 0")
    case True
    obtain w3 where s: "bind_io (make_snapshot env ?self1 w2) (upload_snapshot env ?self1) = (Inr (), w3)"
      and w3: "stream_content w3 = Some ?c"
        "snapshot_dir w3 = write_file (snapshot_name env) ?c (snapshot_dir w2)"
        "snapshot_writes w3 = snapshot_writes w2 @ [snapshot_name env]"
        "uploader_exists w3 = uploader_exists w2" "\<not> uploader_exists w2 \<longrightarrow> runs w3 = runs w2"
      using snapshot_step [OF w2(1)] by blast
    have "add env ev (self, w) = (Inr (), ?self1, w3)"
      using k wr True u s by (simp add: add_def)
    with w2 w3 True show ?thesis
      by (simp add: snapshot_files_def names_write_file map_of_write_file)
  next
    case False
    have "add env ev (self, w) = (Inr (), ?self1, w2)"
      using k wr False u by (simp add: add_def)
    with w2 False show ?thesis by (simp add: snapshot_files_def)
  qed
qed

lemma div_step:
  fixes c k :: int
  assumes k: "0 < k"
  shows "(c + 1) div k = c div k + (if (c + 1) mod k = 0 then 1 else 0)"
proof -
  have r: "0 \<le> c mod k" "c mod k < k" using k by simp_all
  show ?thesis
  proof (cases "c mod k + 1 = k")
    case True
    have "k * (c div k + 1) = k * (c div k) + k" by (simp add: algebra_simps)
    then have e: "c + 1 = k * (c div k + 1) + 0"
      using mult_div_mod_eq [of k c] True by linarith
    have "(c + 1) div k = c div k + 1" by (rule int_div_pos_eq [OF e]) (use k in simp_all)
    moreover have "(c + 1) mod k = 0" by (rule int_mod_pos_eq [OF e]) (use k in simp_all)
    ultimately show ?thesis by simp
  next
    case False
    with r have lt: "c mod k + 1 < k" by simp
    have e: "c + 1 = k * (c div k) + (c mod k + 1)"
      using mult_div_mod_eq [of k c] by linarith
    have "(c + 1) div k = c div k" by (rule int_div_pos_eq [OF e]) (use r lt in simp_all)
    moreover have "(c + 1) mod k = c mod k + 1" by (rule int_mod_pos_eq [OF e]) (use r lt in simp_all)
    ultimately show ?thesis using r by simp
  qed
qed

lemma length_snapshot_calls:
  assumes "0 < k"
  shows "int (length (snapshot_calls k c es)) = (c + int (length es)) div k - c div k"
proof (induction es arbitrary: c)
  case Nil
  show ?case by simp
next
  case (Cons a es)
  obtain env ev where a: "a = (env, ev)" by (cases a)
  have e: "c + 1 + int (length es) = c + int (length (a # es))" by simp
  have "int (length (snapshot_calls k c (a # es)))
      = (if (c + 1) mod k = 0 then 1 else 0) + int (length (snapshot_calls k (c + 1) es))"
    using a by simp
  also have "\<dots> = (if (c + 1) mod k = 0 then 1 else 0)
      + ((c + int (length (a # es))) div k - (c + 1) div k)"
    using Cons [of "c + 1"] e by simp
  also have "\<dots> = (c + int (length (a # es))) div k - c div k"
    using div_step [OF assms, of c] by simp
  finally show ?case .
qed

lemma counted_simps [simp]:
  "counted [] = []"
  "counted (a # es) = (if writable (snd a) then a # counted es else counted es)"
  by (simp_all add: counted_def)

lemma adds_result:
  assumes "0 < snapshot_every self"
  shows "\<exists>w1. adds es (self, w)
             = (map outcome es, self\<lparr>count := count self + int (length (counted es))\<rparr>, w1)
    \<and> content_of w1 = content_of w @ concat (map line_of (counted es))
    \<and> snapshot_writes w1 = snapshot_writes w @
         map snapshot_name (snapshot_calls (snapshot_every self) (count self) (counted es))
    \<and> snapshot_files w1 = snapshot_files w \<union>
         snapshot_name ` set (snapshot_calls (snapshot_every self) (count self) (counted es))
    \<and> uploader_exists w1 = uploader_exists w
    \<and> (\<not> uploader_exists w \<longrightarrow> runs w1 = runs w)"
  using assms
proof (induction es arbitrary: self w)
  case Nil
  show ?case by simp
next
  case (Cons a es)
  obtain env ev where a: "a = (env, ev)" by (cases a)
  show ?case
  proof (cases "writable ev")
    case False
    let ?w0 = "w\<lparr>stream_content := Some (content_of w)\<rparr>"
    have st: "add env ev (self, w) = (Inl UnicodeEncodeError, self, ?w0)"
      using False by (rule add_unwritable)
    obtain w1 where rest: "adds es (self, ?w0)
             = (map outcome es, self\<lparr>count := count self + int (length (counted es))\<rparr>, w1)"
      and c: "content_of w1 = content_of ?w0 @ concat (map line_of (counted es))"
      and sw: "snapshot_writes w1 = snapshot_writes ?w0 @
         map snapshot_name (snapshot_calls (snapshot_every self) (count self) (counted es))"
      and sf: "snapshot_files w1 = snapshot_files ?w0 \<union>
         snapshot_name ` set (snapshot_calls (snapshot_every self) (count self) (counted es))"
      and u: "uploader_exists w1 = uploader_exists ?w0"
      and r: "\<not> uploader_exists ?w0 \<longrightarrow> runs w1 = runs ?w0"
      using Cons.IH [OF Cons.prems, of ?w0] by blast
    have run: "adds (a # es) (self, w)
             = (map outcome (a # es), self\<lparr>count := count self + int (length (counted (a # es)))\<rparr>, w1)"
      using a False st rest by (simp add: outcome_def)
    have c': "content_of w1 = content_of w @ concat (map line_of (counted (a # es)))"
      using a False c by (simp add: content_of_def)
    have sw': "snapshot_writes w1 = snapshot_writes w @
         map snapshot_name (snapshot_calls (snapshot_every self) (count self) (counted (a # es)))"
      using a False sw by simp
    have sf': "snapshot_files w1 = snapshot_files w \<union>
         snapshot_name ` set (snapshot_calls (snapshot_every self) (count self) (counted (a # es)))"
      using a False sf by (simp add: snapshot_files_def)
    have u': "uploader_exists w1 = uploader_exists w" using u by simp
    have r': "\<not> uploader_exists w \<longrightarrow> runs w1 = runs w" using r by simp
    show ?thesis by (intro exI [of _ w1] conjI run c' sw' sf' u' r')
  next
    case True
    let ?self1 = "self\<lparr>count := count self + 1\<rparr>"
    let ?k = "snapshot_every self"
    from Cons.prems have k0: "snapshot_every self \<noteq> 0" by simp
    obtain w1 where st: "add env ev (self, w) = (Inr (), ?self1, w1)"
      and c1: "stream_content w1 = Some (content_of w @ json_dumps ev @ [10])"
      and sw1: "snapshot_writes w1 = snapshot_writes w @
                (if (count self + 1) mod ?k = 0 then [snapshot_name env] else [])"
      and sf1: "snapshot_files w1 = snapshot_files w \<union>
                (if (count self + 1) mod ?k = 0 then {snapshot_name env} else {})"
      and u1: "uploader_exists w1 = uploader_exists w"
      and r1: "\<not> uploader_exists w \<longrightarrow> runs w1 = runs w"
      using add_result [OF k0 True] by blast
    have k1: "0 < snapshot_every ?self1" using Cons.prems by simp
    obtain w2 where rest: "adds es (?self1, w1)
             = (map outcome es, ?self1\<lparr>count := count ?self1 + int (length (counted es))\<rparr>, w2)"
      and c2: "content_of w2 = content_of w1 @ concat (map line_of (counted es))"
      and sw2: "snapshot_writes w2 = snapshot_writes w1 @
         map snapshot_name (snapshot_calls (snapshot_every ?self1) (count ?self1) (counted es))"
      and sf2: "snapshot_files w2 = snapshot_files w1 \<union>
         snapshot_name ` set (snapshot_calls (snapshot_every ?self1) (count ?self1) (counted es))"
      and u2: "uploader_exists w2 = uploader_exists w1"
      and r2: "\<not> uploader_exists w1 \<longrightarrow> runs w2 = runs w1"
      using Cons.IH [OF k1, of w1] by blast
    have run: "adds (a # es) (self, w)
             = (map outcome (a # es), self\<lparr>count := count self + int (length (counted (a # es)))\<rparr>, w2)"
      using a True st rest by (simp add: outcome_def add.commute add.left_commute)
    have c': "content_of w2 = content_of w @ concat (map line_of (counted (a # es)))"
      using a True c1 c2 by (simp add: content_of_def line_of_def)
    have sw': "snapshot_writes w2 = snapshot_writes w @
         map snapshot_name (snapshot_calls (snapshot_every self) (count self) (counted (a # es)))"
      using a True sw1 sw2 by simp
    have sf': "snapshot_files w2 = snapshot_files w \<union>
         snapshot_name ` set (snapshot_calls (snapshot_every self) (count self) (counted (a # es)))"
      using a True sf1 sf2 by auto
    have u': "uploader_exists w2 = uploader_exists w" using u1 u2 by simp
    have r': "\<not> uploader_exists w \<longrightarrow> runs w2 = runs w" using r1 r2 u1 by simp
    show ?thesis by (intro exI [of _ w2] conjI run c' sw' sf' u' r')
  qed
qed

lemma U_eq_iff [simp]: "U a = U b \<longleftrightarrow> a = b"
  by (simp add: U_def inj_map_eq_map [OF inj_of_char])

lemma U_Nil [simp]: "U [] = []" "U a = [] \<longleftrightarrow> a = []" "[] = U a \<longleftrightarrow> a = []"
  by (auto simp: U_def)

lemma snapshot_name_eq_iff [simp]: "snapshot_name a = snapshot_name b \<longleftrightarrow> ts_full a = ts_full b"
  by (simp add: snapshot_name_def)


lemma counted_all: "list_all (\<lambda>call. writable (snd call)) es \<Longrightarrow> counted es = es"
  by (induction es) auto

lemma outcome_all:
  "list_all (\<lambda>call. writable (snd call)) es \<Longrightarrow> map outcome es = map (\<lambda>call. Inr ()) es"
  by (induction es) (auto simp: outcome_def)

lemma outcome_no_zero_division: "Inl ZeroDivisionError \<notin> set (map outcome es)"
  by (auto simp: outcome_def)

lemma init_result:
  assumes "EventStreamer_init strict od sf k w0 = (Inr self, w)"
  shows "snapshot_every self = max 1 k" "count self = 0" "snapshot_dir w = snapshot_dir w0"
    "snapshot_writes w = snapshot_writes w0" "snapshot_files w = snapshot_files w0"
    "content_of w = content_of w0" "uploader_exists w = uploader_exists w0" "runs w = runs w0"
  using assms
  by (auto simp: EventStreamer_init_def Let_def content_of_def snapshot_files_def split: if_splits)

lemma init_default:
  "\<exists>self w. EventStreamer_init False od sf k w0 = (Inr self, w)"
  by (simp add: EventStreamer_init_def Let_def)


lemma finite_snapshot_files [simp]: "finite (snapshot_files w)"
  by (simp add: snapshot_files_def)

lemma line_count_lines: "line_count (concat (map line_of es)) = length es"
proof (induction es)
  case Nil
  show ?case by (simp add: line_count_def)
next
  case (Cons a es)
  with line_count_line [of "snd a"] show ?case
    by (simp add: line_count_append line_of_def del: append.simps)
qed

lemma safe_run_logged:
  "\<exists>rc w1. safe_run cmd r w = (Inr rc, w1)
     \<and> (\<forall>c out err. r = Completed c out err \<longrightarrow>
            rc = c \<and> (c \<noteq> 0 \<longrightarrow> console w1 = console w @ [UploaderReturned c out err]))
     \<and> (\<forall>msg. r = RunRaised msg \<longrightarrow>
            rc = 1 \<and> console w1 = console w @ [RunFailed cmd (OSError msg)])"
  by (cases r) (simp_all add: safe_run_def subprocess_run_def)

text \<open>The run from a constructed streamer.\<close>

lemma run_result:
  assumes i: "EventStreamer_init strict od sf k w0 = (Inr self, w)"
  shows "\<exists>self1 w1. adds es (self, w) = (map outcome es, self1, w1)
    \<and> count self1 = int (length (counted es))
    \<and> content_of w1 = content_of w0 @ concat (map line_of (counted es))
    \<and> snapshot_writes w1 = snapshot_writes w0 @
         map snapshot_name (snapshot_calls (max 1 k) 0 (counted es))
    \<and> snapshot_files w1 = snapshot_files w0 \<union>
         snapshot_name ` set (snapshot_calls (max 1 k) 0 (counted es))
    \<and> uploader_exists w1 = uploader_exists w0
    \<and> (\<not> uploader_exists w0 \<longrightarrow> runs w1 = runs w0)"
proof -
  note r = init_result [OF i]
  have pos: "0 < snapshot_every self" using r(1) by simp
  from adds_result [OF pos, of es w] r show ?thesis by auto
qed

lemma writable_empty: "writable (JObj [])"
  by (simp add: writable_def utf8_encodable_def)

lemma unwritable_surrogate: "\<not> writable surrogate_event"
  by (simp add: writable_def surrogate_event_def utf8_encodable_def encode_basestring_def
      escape_char_def)

lemma init_world0:
  "EventStreamer_init False [] [] k world0 = (Inr (streamer10\<lparr>snapshot_every := max 1 k\<rparr>), world1)"
  by (simp add: EventStreamer_init_def Let_def world0_def world1_def streamer10_def)

lemma world0_files: "snapshot_files world0 = {}" "snapshot_writes world0 = []"
  "content_of world0 = []" "runs world0 = []" "\<not> uploader_exists world0"
  by (simp_all add: world0_def snapshot_files_def content_of_def)




lemma init_world_old:
  "EventStreamer_init False [] [] 10 world_old
     = (Inr streamer10, world_old\<lparr>console := [UploaderNotFound]\<rparr>)"
  by (simp add: EventStreamer_init_def Let_def world_old_def streamer10_def)

lemma world_old_content: "content_of world_old = U ''{}'' @ [10]"
  by (simp add: world_old_def content_of_def U_def)

text \<open>
  Claim C2, as stated, fails in two ways. When the stream file already holds lines at
  construction (the constructor keeps an existing file and \<open>add\<close> opens it for
  appending): the file holds one line, one call to \<open>add\<close> is made, and the log holds two
  lines. And when a record cannot be encoded in UTF-8: the record holds a lone surrogate,
  the write raises \<open>UnicodeEncodeError\<close>, and after that one call the log holds no line.
\<close>

theorem log_line_count_counterexample:
  "EventStreamer_init False [] [] 10 world_old
     = (Inr streamer10, world_old\<lparr>console := [UploaderNotFound]\<rparr>)
   \<and> fst (adds [(env0, JObj [])] (streamer10, world_old\<lparr>console := [UploaderNotFound]\<rparr>))
       = [Inr ()]
   \<and> line_count (content_of (snd (snd
         (adds [(env0, JObj [])] (streamer10, world_old\<lparr>console := [UploaderNotFound]\<rparr>))))) = 2
   \<and> length [(env0, JObj [])] = 1
   \<and> EventStreamer_init False [] [] 10 world0 = (Inr streamer10, world1)
   \<and> fst (adds [(env0, surrogate_event)] (streamer10, world1)) = [Inl UnicodeEncodeError]
   \<and> line_count (content_of (snd (snd (adds [(env0, surrogate_event)] (streamer10, world1))))) = 0
   \<and> length [(env0, surrogate_event)] = 1"
proof -
  have i: "EventStreamer_init False [] [] 10 world0 = (Inr streamer10, world1)"
    using init_world0 [of 10] by (simp add: streamer10_def)
  obtain self1 w1 where a: "adds [(env0, JObj [])] (streamer10, world_old\<lparr>console := [UploaderNotFound]\<rparr>)
        = (map outcome [(env0, JObj [])], self1, w1)"
    and ac: "content_of w1 = content_of world_old @ concat (map line_of (counted [(env0, JObj [])]))"
    using run_result [OF init_world_old, of "[(env0, JObj [])]"] by blast
  obtain self2 w2 where b: "adds [(env0, surrogate_event)] (streamer10, world1)
        = (map outcome [(env0, surrogate_event)], self2, w2)"
    and bc: "content_of w2 = content_of world0 @ concat (map line_of (counted [(env0, surrogate_event)]))"
    using run_result [OF i, of "[(env0, surrogate_event)]"] by blast
  have al: "line_count (content_of w1) = 2"
    using ac by (simp add: writable_empty world_old_content line_of_def line_count_def U_def)
  have bl: "line_count (content_of w2) = 0"
    using bc by (simp add: unwritable_surrogate world0_files line_count_def)
  show ?thesis
    using init_world_old i a al b bl
    by (simp add: outcome_def writable_empty unwritable_surrogate)
qed

text \<open>
  Claim C2, amended. After any run of calls to \<open>add\<close> the log is what it held at
  construction followed by the serialised records, in call order and duplicates included,
  of the calls whose record can be encoded in UTF-8, each on one line of its own (a
  serialisation contains no newline); a call whose record cannot be encoded raises
  \<open>UnicodeEncodeError\<close> and appends nothing. So the log has grown by one line for each
  call that returned, by exactly \<open>N\<close> lines when all \<open>N\<close> records can be encoded, and what
  it held before is an unchanged prefix.
\<close>

theorem log_grows_by_one_line_per_encodable_add:
  assumes "EventStreamer_init strict od sf k w0 = (Inr self, w)"
  shows "\<exists>self1 w1. adds es (self, w) = (map outcome es, self1, w1)
      \<and> content_of w1 = content_of w0 @ concat (map line_of (counted es))
      \<and> list_all (\<lambda>call. 10 \<notin> set (json_dumps (snd call))) es
      \<and> line_count (content_of w1) = line_count (content_of w0) + length (counted es)
      \<and> (list_all (\<lambda>call. writable (snd call)) es \<longrightarrow>
           map outcome es = map (\<lambda>call. Inr ()) es \<and> counted es = es
           \<and> line_count (content_of w1) = line_count (content_of w0) + length es)"
proof -
  obtain self1 w1 where run: "adds es (self, w) = (map outcome es, self1, w1)"
    and c1: "content_of w1 = content_of w0 @ concat (map line_of (counted es))"
    using run_result [OF assms, of es] by blast
  have nl: "list_all (\<lambda>call. 10 \<notin> set (json_dumps (snd call))) es"
    by (simp add: list_all_iff json_dumps_no_nl)
  have lc: "line_count (content_of w1) = line_count (content_of w0) + length (counted es)"
    using c1 by (simp add: line_count_append line_count_lines)
  have al: "map outcome es = map (\<lambda>call. Inr ()) es \<and> counted es = es
      \<and> line_count (content_of w1) = line_count (content_of w0) + length es"
    if "list_all (\<lambda>call. writable (snd call)) es"
    using outcome_all [OF that] counted_all [OF that] lc by simp
  from run c1 nl lc al show ?thesis by blast
qed

theorem log_grows_by_one_line_per_encodable_add_witness:
  "EventStreamer_init False [] [] 10 world_old
     = (Inr streamer10, world_old\<lparr>console := [UploaderNotFound]\<rparr>)
   \<and> (\<exists>self1 w1.
        adds [(env0, JObj []), (env0, surrogate_event), (env0, JObj [])]
            (streamer10, world_old\<lparr>console := [UploaderNotFound]\<rparr>)
          = ([Inr (), Inl UnicodeEncodeError, Inr ()], self1, w1)
        \<and> content_of w1 = U ''{}'' @ [10] @ U ''{}'' @ [10] @ U ''{}'' @ [10]
        \<and> line_count (content_of w1) = 1 + 2)
   \<and> (\<exists>self1 w1.
        adds [(env0, JObj []), (env0, JObj [])] (streamer10, world_old\<lparr>console := [UploaderNotFound]\<rparr>)
          = ([Inr (), Inr ()], self1, w1)
        \<and> line_count (content_of w1) = 1 + 2)"
proof -
  let ?es = "[(env0, JObj []), (env0, surrogate_event), (env0, JObj [])]"
  let ?fs = "[(env0, JObj []), (env0, JObj [])]"
  have lo: "line_count (content_of world_old) = 1"
    by (simp add: world_old_content line_count_def U_def)
  from log_grows_by_one_line_per_encodable_add [OF init_world_old, of ?es]
  obtain self1 w1 where
    a: "adds ?es (streamer10, world_old\<lparr>console := [UploaderNotFound]\<rparr>) = (map outcome ?es, self1, w1)"
    and c: "content_of w1 = content_of world_old @ concat (map line_of (counted ?es))"
    and l: "line_count (content_of w1) = line_count (content_of world_old) + length (counted ?es)"
    by blast
  have a': "adds ?es (streamer10, world_old\<lparr>console := [UploaderNotFound]\<rparr>)
      = ([Inr (), Inl UnicodeEncodeError, Inr ()], self1, w1)"
    using a by (simp add: outcome_def writable_empty unwritable_surrogate)
  have c': "content_of w1 = U ''{}'' @ [10] @ U ''{}'' @ [10] @ U ''{}'' @ [10]"
    using c by (simp add: writable_empty unwritable_surrogate world_old_content line_of_def U_def)
  have l': "line_count (content_of w1) = 1 + 2"
    using l lo by (simp add: writable_empty unwritable_surrogate)
  have wr: "list_all (\<lambda>call. writable (snd call)) ?fs" by (simp add: writable_empty)
  from log_grows_by_one_line_per_encodable_add [OF init_world_old, of ?fs]
  obtain self2 w2 where
    b: "adds ?fs (streamer10, world_old\<lparr>console := [UploaderNotFound]\<rparr>) = (map outcome ?fs, self2, w2)"
    and m: "list_all (\<lambda>call. writable (snd call)) ?fs \<longrightarrow>
           map outcome ?fs = map (\<lambda>call. Inr ()) ?fs \<and> counted ?fs = ?fs
           \<and> line_count (content_of w2) = line_count (content_of world_old) + length ?fs"
    by blast
  from m wr have m': "map outcome ?fs = [Inr (), Inr ()]" "line_count (content_of w2) = 1 + 2"
    using lo by simp_all
  from b m' have b': "adds ?fs (streamer10, world_old\<lparr>console := [UploaderNotFound]\<rparr>)
      = ([Inr (), Inr ()], self2, w2)" by simp
  from init_world_old a' c' l' b' m'(2) show ?thesis by blast
qed

text \<open>
  Claim C10. Whatever integer is configured, the constructor stores \<open>max 1 k\<close>, which is
  at least 1; so no call to \<open>add\<close> raises \<open>ZeroDivisionError\<close> from the modulo test, every
  call that writes its record advances the counter by one, and after \<open>n\<close> such calls
  \<open>_make_snapshot\<close> has been executed \<open>n div snapshot_every\<close> times. When every record
  can be encoded in UTF-8 no call raises at all and \<open>n\<close> is the number of calls.
\<close>

theorem snapshot_every_clamped:
  "\<exists>self w. EventStreamer_init STRICT_MISSING_UPLOADER od sf k w0 = (Inr self, w)
     \<and> snapshot_every self = max 1 k \<and> 1 \<le> snapshot_every self
     \<and> (\<forall>es. \<exists>self1 w1. adds es (self, w) = (map outcome es, self1, w1)
           \<and> Inl ZeroDivisionError \<notin> set (map outcome es)
           \<and> count self1 = int (length (counted es))
           \<and> int (length (snapshot_writes w1)) =
               int (length (snapshot_writes w0)) + int (length (counted es)) div snapshot_every self
           \<and> (list_all (\<lambda>call. writable (snd call)) es \<longrightarrow>
                map outcome es = map (\<lambda>call. Inr ()) es
                \<and> count self1 = int (length es)
                \<and> int (length (snapshot_writes w1)) =
                    int (length (snapshot_writes w0)) + int (length es) div snapshot_every self))"
proof -
  obtain self w where i: "EventStreamer_init STRICT_MISSING_UPLOADER od sf k w0 = (Inr self, w)"
    unfolding STRICT_MISSING_UPLOADER_def using init_default by blast
  have se: "snapshot_every self = max 1 k"
    using init_result [OF i] by simp
  have pos: "0 < max 1 k" by simp
  have "\<exists>self1 w1. adds es (self, w) = (map outcome es, self1, w1)
           \<and> Inl ZeroDivisionError \<notin> set (map outcome es)
           \<and> count self1 = int (length (counted es))
           \<and> int (length (snapshot_writes w1)) =
               int (length (snapshot_writes w0)) + int (length (counted es)) div snapshot_every self
           \<and> (list_all (\<lambda>call. writable (snd call)) es \<longrightarrow>
                map outcome es = map (\<lambda>call. Inr ()) es
                \<and> count self1 = int (length es)
                \<and> int (length (snapshot_writes w1)) =
                    int (length (snapshot_writes w0)) + int (length es) div snapshot_every self)" for es
  proof -
    obtain self1 w1 where run: "adds es (self, w) = (map outcome es, self1, w1)"
      and cnt: "count self1 = int (length (counted es))"
      and sw: "snapshot_writes w1 = snapshot_writes w0 @
         map snapshot_name (snapshot_calls (max 1 k) 0 (counted es))"
      using run_result [OF i, of es] by blast
    have len: "int (length (snapshot_writes w1)) =
               int (length (snapshot_writes w0)) + int (length (counted es)) div snapshot_every self"
      using sw length_snapshot_calls [OF pos, of 0 "counted es"] se by simp
    have al: "map outcome es = map (\<lambda>call. Inr ()) es
                \<and> count self1 = int (length es)
                \<and> int (length (snapshot_writes w1)) =
                    int (length (snapshot_writes w0)) + int (length es) div snapshot_every self"
      if "list_all (\<lambda>call. writable (snd call)) es"
      using outcome_all [OF that] counted_all [OF that] cnt len by simp
    from run outcome_no_zero_division [of es] cnt len al show ?thesis by blast
  qed
  moreover have "1 \<le> snapshot_every self" using se by simp
  ultimately show ?thesis using i se by blast
qed

theorem snapshot_every_clamped_witness:
  "EventStreamer_init False [] [] (- 3) world0 = (Inr (streamer10\<lparr>snapshot_every := 1\<rparr>), world1)
   \<and> (\<exists>self1 w1. adds [(env0, JObj []), (env0, JObj [])] (streamer10\<lparr>snapshot_every := 1\<rparr>, world1)
          = ([Inr (), Inr ()], self1, w1) \<and> count self1 = 2 \<and> length (snapshot_writes w1) = 2)"
proof -
  let ?es = "[(env0, JObj []), (env0, JObj [])]"
  have i: "EventStreamer_init False [] [] (- 3) world0 = (Inr (streamer10\<lparr>snapshot_every := 1\<rparr>), world1)"
    using init_world0 [of "- 3"] by simp
  have wr: "list_all (\<lambda>call. writable (snd call)) ?es" by (simp add: writable_empty)
  from snapshot_every_clamped [of "[]" "[]" "- 3" world0]
  obtain self w where s: "EventStreamer_init STRICT_MISSING_UPLOADER [] [] (- 3) world0 = (Inr self, w)"
    and se: "snapshot_every self = max 1 (- 3)"
    and al: "\<forall>es. \<exists>self1 w1. adds es (self, w) = (map outcome es, self1, w1)
           \<and> Inl ZeroDivisionError \<notin> set (map outcome es)
           \<and> count self1 = int (length (counted es))
           \<and> int (length (snapshot_writes w1)) =
               int (length (snapshot_writes world0)) + int (length (counted es)) div snapshot_every self
           \<and> (list_all (\<lambda>call. writable (snd call)) es \<longrightarrow>
                map outcome es = map (\<lambda>call. Inr ()) es
                \<and> count self1 = int (length es)
                \<and> int (length (snapshot_writes w1)) =
                    int (length (snapshot_writes world0)) + int (length es) div snapshot_every self)"
    by blast
  have eq: "self = streamer10\<lparr>snapshot_every := 1\<rparr>" "w = world1"
    using s i by (simp_all add: STRICT_MISSING_UPLOADER_def)
  from al obtain self1 w1 where "adds ?es (self, w) = (map outcome ?es, self1, w1)"
    "list_all (\<lambda>call. writable (snd call)) ?es \<longrightarrow>
                map outcome ?es = map (\<lambda>call. Inr ()) ?es
                \<and> count self1 = int (length ?es)
                \<and> int (length (snapshot_writes w1)) =
                    int (length (snapshot_writes world0)) + int (length ?es) div snapshot_every self"
    by blast
  with wr have "adds ?es (streamer10\<lparr>snapshot_every := 1\<rparr>, world1) = ([Inr (), Inr ()], self1, w1)"
    "count self1 = 2" "length (snapshot_writes w1) = 2"
    using eq se by (simp_all add: world0_files)
  with i show ?thesis by blast
qed

text \<open>
  Claim C9. \<open>_safe_run\<close> always returns: a completed run gives its return code and,
  when that is not zero, a printed warning; a run that raises gives 1 and a printed
  warning. The strict flag is off in the source; with it off the constructor succeeds
  whether the uploader exists or not, and every call to \<open>add\<close> whose record can be
  encoded then returns normally and appends its line, without running any command when
  the uploader is missing (the one exception \<open>add\<close> can raise is that of the write, for
  a record that cannot be encoded, with or without uploader). The constructor raises
  only \<open>FileNotFoundError\<close>, and exactly when the flag is on and the uploader is missing.
\<close>

theorem publish_failure_never_raised:
  "(\<exists>rc w1. safe_run cmd r w = (Inr rc, w1)
      \<and> (\<forall>c out err. r = Completed c out err \<longrightarrow>
             rc = c \<and> (c \<noteq> 0 \<longrightarrow> console w1 = console w @ [UploaderReturned c out err]))
      \<and> (\<forall>msg. r = RunRaised msg \<longrightarrow>
             rc = 1 \<and> console w1 = console w @ [RunFailed cmd (OSError msg)]))
   \<and> \<not> STRICT_MISSING_UPLOADER
   \<and> (\<exists>self w1. EventStreamer_init STRICT_MISSING_UPLOADER od sf k w0 = (Inr self, w1)
        \<and> (\<forall>es. \<exists>self2 w2. adds es (self, w1) = (map outcome es, self2, w2)
              \<and> content_of w2 = content_of w0 @ concat (map line_of (counted es))
              \<and> (\<not> uploader_exists w0 \<longrightarrow> runs w2 = runs w0)
              \<and> (list_all (\<lambda>call. writable (snd call)) es \<longrightarrow>
                   map outcome es = map (\<lambda>call. Inr ()) es
                   \<and> content_of w2 = content_of w0 @ concat (map line_of es))))
   \<and> (fst (EventStreamer_init strict od sf k w0) = Inl FileNotFoundError
          \<longleftrightarrow> strict \<and> \<not> uploader_exists w0)
   \<and> (\<forall>e. fst (EventStreamer_init strict od sf k w0) = Inl e \<longrightarrow> e = FileNotFoundError)"
proof -
  obtain self w1 where i: "EventStreamer_init STRICT_MISSING_UPLOADER od sf k w0 = (Inr self, w1)"
    unfolding STRICT_MISSING_UPLOADER_def using init_default by blast
  have run: "\<exists>self2 w2. adds es (self, w1) = (map outcome es, self2, w2)
              \<and> content_of w2 = content_of w0 @ concat (map line_of (counted es))
              \<and> (\<not> uploader_exists w0 \<longrightarrow> runs w2 = runs w0)
              \<and> (list_all (\<lambda>call. writable (snd call)) es \<longrightarrow>
                   map outcome es = map (\<lambda>call. Inr ()) es
                   \<and> content_of w2 = content_of w0 @ concat (map line_of es))" for es
  proof -
    obtain self2 w2 where a: "adds es (self, w1) = (map outcome es, self2, w2)"
      and b: "content_of w2 = content_of w0 @ concat (map line_of (counted es))"
      and c: "\<not> uploader_exists w0 \<longrightarrow> runs w2 = runs w0"
      using run_result [OF i, of es] by blast
    have d: "map outcome es = map (\<lambda>call. Inr ()) es
                   \<and> content_of w2 = content_of w0 @ concat (map line_of es)"
      if "list_all (\<lambda>call. writable (snd call)) es"
      using outcome_all [OF that] counted_all [OF that] b by simp
    from a b c d show ?thesis by blast
  qed
  have a: "fst (EventStreamer_init strict od sf k w0) = Inl FileNotFoundError
          \<longleftrightarrow> strict \<and> \<not> uploader_exists w0"
    by (simp add: EventStreamer_init_def Let_def)
  have b: "\<forall>e. fst (EventStreamer_init strict od sf k w0) = Inl e \<longrightarrow> e = FileNotFoundError"
    by (simp add: EventStreamer_init_def Let_def)
  have c: "\<not> STRICT_MISSING_UPLOADER" by (simp add: STRICT_MISSING_UPLOADER_def)
  from safe_run_logged [of cmd r w] i run a b c show ?thesis by blast
qed

theorem publish_failure_never_raised_witness:
  "safe_run [U ''bash''] (Completed 2 [] []) world0
     = (Inr 2, world0\<lparr>runs := [[U ''bash'']], console := [UploaderReturned 2 [] []]\<rparr>)
   \<and> safe_run [U ''bash''] (RunRaised (U ''no bash'')) world0
     = (Inr 1, world0\<lparr>runs := [[U ''bash'']], console := [RunFailed [U ''bash''] (OSError (U ''no bash''))]\<rparr>)
   \<and> \<not> uploader_exists world0
   \<and> fst (EventStreamer_init True [] [] 10 world0) = Inl FileNotFoundError
   \<and> EventStreamer_init False [] [] 10 world0 = (Inr streamer10, world1)
   \<and> (\<exists>self2 w2. adds [(env0, JObj [])] (streamer10, world1) = ([Inr ()], self2, w2)
        \<and> content_of w2 = U ''{}'' @ [10] \<and> runs w2 = [])"
proof -
  let ?es = "[(env0, JObj [])]"
  have i: "EventStreamer_init False [] [] 10 world0 = (Inr streamer10, world1)"
    using init_world0 [of 10] by (simp add: streamer10_def)
  have u: "\<not> uploader_exists world0" by (simp add: world0_def)
  have wr: "list_all (\<lambda>call. writable (snd call)) ?es" by (simp add: writable_empty)
  note t = publish_failure_never_raised [of "[U ''bash'']" "Completed 2 [] []" world0 "[]" "[]" 10 world0 True]
  have p1: "safe_run [U ''bash''] (Completed 2 [] []) world0
     = (Inr 2, world0\<lparr>runs := [[U ''bash'']], console := [UploaderReturned 2 [] []]\<rparr>)"
    by (simp add: safe_run_def subprocess_run_def world0_def)
  have p2: "safe_run [U ''bash''] (RunRaised (U ''no bash'')) world0
     = (Inr 1, world0\<lparr>runs := [[U ''bash'']], console := [RunFailed [U ''bash''] (OSError (U ''no bash''))]\<rparr>)"
    by (simp add: safe_run_def subprocess_run_def world0_def)
  have p3: "fst (EventStreamer_init True [] [] 10 world0) = Inl FileNotFoundError"
    by (simp add: EventStreamer_init_def Let_def world0_def)
  from t [THEN conjunct2, THEN conjunct2, THEN conjunct1] obtain self w1 where s: "EventStreamer_init STRICT_MISSING_UPLOADER [] [] 10 world0 = (Inr self, w1)"
    and al: "\<forall>es. \<exists>self2 w2. adds es (self, w1) = (map outcome es, self2, w2)
              \<and> content_of w2 = content_of world0 @ concat (map line_of (counted es))
              \<and> (\<not> uploader_exists world0 \<longrightarrow> runs w2 = runs world0)
              \<and> (list_all (\<lambda>call. writable (snd call)) es \<longrightarrow>
                   map outcome es = map (\<lambda>call. Inr ()) es
                   \<and> content_of w2 = content_of world0 @ concat (map line_of es))"
    by blast
  have eq: "self = streamer10" "w1 = world1"
    using s i by (simp_all add: STRICT_MISSING_UPLOADER_def)
  from al obtain self2 w2 where a: "adds ?es (self, w1) = (map outcome ?es, self2, w2)"
    and b: "\<not> uploader_exists world0 \<longrightarrow> runs w2 = runs world0"
    and c: "list_all (\<lambda>call. writable (snd call)) ?es \<longrightarrow>
                   map outcome ?es = map (\<lambda>call. Inr ()) ?es
                   \<and> content_of w2 = content_of world0 @ concat (map line_of ?es)"
    by blast
  from a b c wr u eq have "adds ?es (streamer10, world1) = ([Inr ()], self2, w2)"
    "content_of w2 = U ''{}'' @ [10]" "runs w2 = []"
    by (simp_all add: world0_files line_of_def U_def)
  then have p4: "\<exists>self2 w2. adds ?es (streamer10, world1) = ([Inr ()], self2, w2)
        \<and> content_of w2 = U ''{}'' @ [10] \<and> runs w2 = []"
    by blast
  from p1 p2 u p3 i p4 show ?thesis by blast
qed

section \<open>Properties of the extractors\<close>

lemma scenario_descendants:
  "descendants scenario =
     [info_node, name_node, NavigableString (U ''  Spring  Trial  ''),
      status_node, NavigableString (U ''Finalizado'')]"
  by (simp add: scenario_def info_node_def name_node_def status_node_def)


lemma has_class_simps:
  "has_class q (Tag n (Some cs) a ch) = (q \<in> set cs \<or> join_space cs = q)"
  "has_class q (Tag n None a ch) = False"
  "has_class q (NavigableString s) = False"
  by (simp_all add: has_class_def)

lemma is_tag_simps:
  "is_tag name (Tag n c a ch) = (n = name)"
  "is_tag name (NavigableString s) = False"
  by (simp_all add: is_tag_def)

lemma join_info: "join_space [U ''relative'', U ''flex'', U ''flex-col'', U ''w-full'', U ''pt-1'', U ''pb-6'',
                 U ''mb-4'', U ''border-b'', U ''border-gray-300''] = cls_info"
  by (simp add: cls_info_def U_def)

lemma join_name: "join_space [U ''font-caption'', U ''text-lg'', U ''text-black'', U ''truncate'', U ''-mt-1''] = cls_name"
  by (simp add: cls_name_def U_def)

lemma join_status: "join_space [U ''py-1'', U ''px-4'', U ''border'', U ''text-white'', U ''font-bold'',
                 U ''rounded'', U ''text-sm''] = cls_status"
  by (simp add: cls_status_def U_def)

lemmas cls_defs = cls_container_def cls_name_def cls_small_def cls_club_def cls_info_def
  cls_status_def cls_flag_def

lemma join_container: "join_space [U ''group'', U ''mb-6''] = cls_container"
  by (simp add: cls_container_def U_def)



lemma node_tags:
  "is_tag tag_div scenario" "is_tag tag_div info_node" "is_tag tag_div name_node"
  "is_tag tag_div status_node" "\<not> is_tag tag_a scenario" "\<not> is_tag tag_a info_node"
  "\<not> is_tag tag_a name_node" "\<not> is_tag tag_a status_node"
  by (simp_all add: scenario_def info_node_def name_node_def status_node_def is_tag_simps
      tag_div_def tag_a_def)





lemma replace_id: "py_replace (U ''event-card-'') [] (U ''event-card-abc123'') = U ''abc123''"
  by (simp add: py_replace.simps U_def starts_with_def)


lemma map_of_dict_set: "map_of (dict_set k v d) k' = (if k' = k then Some v else map_of d k')"
  by (induction d) auto

lemma map_of_set_opt:
  "map_of (set_opt k vo ev) k' =
     (if k' = k then (case vo of Some v \<Rightarrow> Some (JStr v) | None \<Rightarrow> map_of ev k')
      else map_of ev k')"
  by (cases vo) (simp_all add: set_opt_def map_of_dict_set)

lemma item_fields_id:
  "map_of (item_fields nfkc c) (U ''id'') =
     (if attr_or_empty (U ''id'') c \<noteq> []
      then Some (JStr (py_replace (U ''event-card-'') [] (attr_or_empty (U ''id'') c)))
      else None)"
  by (simp add: item_fields_def Let_def map_of_set_opt)



lemma find_tag_None_find_all: "find_tag name p ns = None \<Longrightarrow> find_all name p ns = []"
  by (auto simp: find_tag_def find_all_def find_None_iff filter_empty_conv)

lemma item_links_raises:
  "item_links urljoin c ev = Inl e \<Longrightarrow> \<exists>h. urljoin BASE h = Inl e"
  by (auto simp: item_links_def split: option.splits sum.splits json.splits)

lemma extract_events_item_raises:
  "extract_events_item nfkc urljoin c = Inl e \<Longrightarrow> \<exists>h. urljoin BASE h = Inl e"
  by (auto simp: extract_events_item_def Let_def split: sum.splits dest: item_links_raises)

lemma add_link_raises:
  "add_link urljoin ns path key enlaces = Inl e \<Longrightarrow> \<exists>h. urljoin BASE h = Inl e"
  by (auto simp: add_link_def split: option.splits sum.splits)

lemma details_links_raises:
  "details_links urljoin ns = Inl e \<Longrightarrow> \<exists>h. urljoin BASE h = Inl e"
  by (auto simp: details_links_def split: sum.splits dest: add_link_raises)

lemma extract_event_details_raises:
  "extract_event_details urljoin soup = Inl e \<Longrightarrow> \<exists>h. urljoin BASE h = Inl e"
  by (auto simp: extract_event_details_def Let_def split: sum.splits dest: details_links_raises)

lemma no_recognised_item_result:
  assumes "no_recognised_item c"
  shows "extract_events_item nfkc urljoin c = Inr (default_item (attr_or_empty (U ''id'') c))"
proof -
  let ?i = "attr_or_empty (U ''id'') c"
  from assms have n: "find_tag tag_div (has_class cls_name) (descendants c) = None"
    and s: "find_tag tag_div (has_class cls_small) (descendants c) = None"
    and cl: "find_tag tag_div (has_class cls_club) (descendants c) = None"
    and f: "find_tag tag_div (has_class cls_flag) (descendants c) = None"
    and i: "find_tag tag_a (href_with (contains (U ''/info/''))) (descendants c) = None"
    and p: "participant_links c = []"
    by (simp_all add: no_recognised_item_def Let_def)
  have fields: "item_fields nfkc c =
      (if ?i = [] then [] else [(U ''id'', JStr (py_replace (U ''event-card-'') [] ?i))])"
    by (simp add: item_fields_def Let_def n s cl find_tag_None_find_all [OF s] set_opt_def)
  have links: "item_links urljoin c (item_fields nfkc c) =
      Inr (if ?i = [] then []
           else [(U ''participantes'',
                  JStr (canonical_participants (py_replace (U ''event-card-'') [] ?i)))])"
    by (simp add: item_links_def i p fields)
  show ?thesis
    by (simp add: extract_events_item_def links f set_opt_def default_item_def)
       (simp add: fields)
qed

lemma no_recognised_details_result:
  assumes "no_recognised_details soup"
  shows "extract_event_details urljoin soup =
     Inr (default_details (map_option (attr_or_empty (U ''id''))
            (find_tag tag_div (has_class cls_container) (soup_nodes soup))))"
proof -
  from assms have i: "find_tag tag_div (has_class cls_info) (soup_nodes soup) = None"
    and s: "find_tag tag_div (has_class cls_status) (soup_nodes soup) = None"
    and f: "find_tag tag_div (has_class cls_flag) (soup_nodes soup) = None"
    and l1: "find_tag tag_a (href_with (contains (U ''/info/''))) (soup_nodes soup) = None"
    and l2: "find_tag tag_a (href_with (contains (U ''/participants_list''))) (soup_nodes soup) = None"
    and l3: "find_tag tag_a (href_with (contains (U ''/runs''))) (soup_nodes soup) = None"
    by (simp_all add: no_recognised_details_def Let_def)
  have links: "details_links urljoin (soup_nodes soup) = Inr []"
    by (simp add: details_links_def add_link_def l1 l2 l3)
  show ?thesis
    by (cases "find_tag tag_div (has_class cls_container) (soup_nodes soup)")
       (simp_all add: extract_event_details_def Let_def i s f links status_fields_def set_opt_def
          default_details_def)
qed

lemma container_first:
  "is_tag tag_div c \<Longrightarrow> has_class cls_container c \<Longrightarrow>
   find_tag tag_div (has_class cls_container) (soup_nodes [c]) = Some c"
  by (simp add: find_tag_def soup_nodes_def)

lemma item_result:
  assumes "extract_events_item nfkc urljoin c = Inr ev"
  shows "\<exists>enlaces flag. item_links urljoin c (item_fields nfkc c) = Inr enlaces
           \<and> ev = set_opt (U ''pais_bandera'') (Some flag)
                    (dict_set (U ''enlaces'') (JObj enlaces) (item_fields nfkc c))"
  using assms by (auto simp: extract_events_item_def Let_def split: sum.splits)

lemma item_lookup:
  assumes "extract_events_item nfkc urljoin c = Inr ev"
    and "k \<noteq> U ''pais_bandera''" and "k \<noteq> U ''enlaces''"
  shows "map_of ev k = map_of (item_fields nfkc c) k"
  using item_result [OF assms(1)] assms(2,3)
  by (auto simp: map_of_set_opt map_of_dict_set)

lemma item_enlaces:
  assumes "extract_events_item nfkc urljoin c = Inr ev"
  shows "\<exists>enlaces. item_links urljoin c (item_fields nfkc c) = Inr enlaces
           \<and> map_of ev (U ''enlaces'') = Some (JObj enlaces)"
  using item_result [OF assms]
  by (auto simp: map_of_set_opt map_of_dict_set)

lemma item_links_fallback:
  assumes "item_links urljoin c ev0 = Inr enlaces" and "participant_links c = []"
    and "map_of ev0 (U ''id'') = Some (JStr i)"
  shows "map_of enlaces (U ''participantes'') = Some (JStr (canonical_participants i))"
  using assms
  by (auto simp: item_links_def map_of_dict_set split: option.splits sum.splits)

text \<open>
  Claim C5. When the streaming extractor returns a record for a container that has no
  participants anchor, and the record has an \<open>id\<close>, then its links hold, under
  \<open>participantes\<close>, the address built from the base origin and that id:
  \<open>BASE/zone/events/<id>/participants_list\<close>.
\<close>

theorem synthesized_participants_link:
  assumes "extract_events_item nfkc urljoin c = Inr ev"
    and "participant_links c = []"
    and "map_of ev (U ''id'') = Some (JStr i)"
  shows "\<exists>enlaces. map_of ev (U ''enlaces'') = Some (JObj enlaces)
           \<and> map_of enlaces (U ''participantes'')
               = Some (JStr (BASE @ U ''/zone/events/'' @ i @ U ''/participants_list''))"
proof -
  obtain enlaces where l: "item_links urljoin c (item_fields nfkc c) = Inr enlaces"
    and e: "map_of ev (U ''enlaces'') = Some (JObj enlaces)"
    using item_enlaces [OF assms(1)] by blast
  have "map_of (item_fields nfkc c) (U ''id'') = Some (JStr i)"
    using item_lookup [OF assms(1), of "U ''id''"] assms(3) by simp
  from item_links_fallback [OF l assms(2) this] e show ?thesis
    by (simp add: canonical_participants_def)
qed

lemma join_base_total: "\<exists>ev. extract_events_item nfkc join_base c = Inr ev"
proof (cases "extract_events_item nfkc join_base c")
  case (Inl e)
  from extract_events_item_raises [OF Inl] show ?thesis by (simp add: join_base_def)
next
  case (Inr ev)
  then show ?thesis by blast
qed


lemma scenario_no_participant_links: "participant_links scenario = []"
  by (simp add: participant_links_def scenario_descendants find_all_def is_tag_simps node_tags)

lemma scenario_id: "attr (U ''id'') scenario = Some (U ''event-card-abc123'')"
  by (simp add: scenario_def attr_def)

theorem synthesized_participants_link_witness:
  "\<exists>ev. extract_events_item (\<lambda>s. s) join_base scenario = Inr ev
     \<and> participant_links scenario = []
     \<and> map_of ev (U ''id'') = Some (JStr (U ''abc123''))
     \<and> (\<exists>enlaces. map_of ev (U ''enlaces'') = Some (JObj enlaces)
           \<and> map_of enlaces (U ''participantes'')
               = Some (JStr (U ''https://www.flowagility.com/zone/events/abc123/participants_list'')))"
proof -
  obtain ev where ev: "extract_events_item (\<lambda>s. s) join_base scenario = Inr ev"
    using join_base_total by blast
  have i: "map_of ev (U ''id'') = Some (JStr (U ''abc123''))"
    using item_lookup [OF ev, of "U ''id''"]
    by (simp add: item_fields_id attr_or_empty_def scenario_id replace_id)
  from synthesized_participants_link [OF ev scenario_no_participant_links i]
  obtain enlaces where "map_of ev (U ''enlaces'') = Some (JObj enlaces)"
    "map_of enlaces (U ''participantes'')
       = Some (JStr (BASE @ U ''/zone/events/'' @ U ''abc123'' @ U ''/participants_list''))"
    by blast
  moreover have "BASE @ U ''/zone/events/'' @ U ''abc123'' @ U ''/participants_list''
      = U ''https://www.flowagility.com/zone/events/abc123/participants_list''"
    by (simp add: BASE_def U_def)
  ultimately show ?thesis using ev i scenario_no_participant_links by auto
qed

lemma bare_soup: "soup_nodes [bare_container] = [bare_container, NavigableString (U ''n/a'')]"
  by (simp add: soup_nodes_def bare_container_def)

lemma bare_tags: "is_tag tag_div bare_container" "\<not> is_tag tag_a bare_container"
  by (simp_all add: bare_container_def is_tag_simps tag_div_def tag_a_def)

lemma bare_classes:
  "has_class cls_container bare_container" "\<not> has_class cls_info bare_container"
  "\<not> has_class cls_status bare_container" "\<not> has_class cls_flag bare_container"
  by (simp_all add: bare_container_def has_class_simps cls_defs U_def)

lemma bare_id: "attr_or_empty (U ''id'') bare_container = []"
  by (simp add: bare_container_def attr_or_empty_def attr_def)

lemma bare_no_details: "no_recognised_details [bare_container]"
  by (simp add: no_recognised_details_def bare_soup find_tag_def bare_tags bare_classes is_tag_simps)

lemma bare_no_item: "no_recognised_item bare_container"
  by (simp add: no_recognised_item_def bare_container_def find_tag_def participant_links_def
      find_all_def is_tag_simps)

lemma id_soup: "soup_nodes [id_container] = [id_container]" "descendants id_container = []"
  by (simp_all add: soup_nodes_def id_container_def)

lemma id_tags: "is_tag tag_div id_container" "\<not> is_tag tag_a id_container"
  by (simp_all add: id_container_def is_tag_simps tag_div_def tag_a_def)

lemma id_classes:
  "has_class cls_container id_container" "\<not> has_class cls_info id_container"
  "\<not> has_class cls_status id_container" "\<not> has_class cls_flag id_container"
  by (simp_all add: id_container_def has_class_simps cls_defs U_def)

lemma id_id: "attr_or_empty (U ''id'') id_container = U ''event-card-abc123''"
  by (simp add: id_container_def attr_or_empty_def attr_def)

lemma id_no_details: "no_recognised_details [id_container]"
  by (simp add: no_recognised_details_def id_soup find_tag_def id_tags id_classes)

lemma id_no_item: "no_recognised_item id_container"
  by (simp add: no_recognised_item_def id_soup find_tag_def participant_links_def find_all_def)

lemma bad_anchor_href: "href_with (contains (U ''/info/'')) bad_anchor"
  by (simp add: href_with_def bad_anchor_def attr_def U_def starts_with_def)

lemma bad_anchor_facts:
  "is_tag tag_a bad_anchor" "attr_or_empty (U ''href'') bad_anchor = U ''//[/info/''"
  by (simp_all add: bad_anchor_def is_tag_simps attr_or_empty_def attr_def)

lemma bad_soup: "soup_nodes [bad_container] = [bad_container, bad_anchor]"
  "descendants bad_container = [bad_anchor]"
  by (simp_all add: soup_nodes_def bad_container_def bad_anchor_def)

lemma bad_tags: "is_tag tag_div bad_container" "\<not> is_tag tag_a bad_container"
  by (simp_all add: bad_container_def is_tag_simps tag_div_def tag_a_def)

lemma bad_details_raises: "extract_event_details join_strict [bad_container] = Inl ValueError"
proof -
  have "details_links join_strict (soup_nodes [bad_container]) = Inl ValueError"
    by (simp add: details_links_def add_link_def bad_soup find_tag_def bad_tags bad_anchor_facts
        bad_anchor_href join_strict_def)
  then show ?thesis by (simp add: extract_event_details_def Let_def)
qed

lemma bad_item_raises: "extract_events_item nfkc join_strict bad_container = Inl ValueError"
proof -
  have "item_links join_strict bad_container ev = Inl ValueError" for ev
    by (simp add: item_links_def bad_soup find_tag_def bad_anchor_facts bad_anchor_href
        join_strict_def)
  then show ?thesis by (simp add: extract_events_item_def Let_def)
qed

text \<open>
  Claim C3, as stated, fails on both halves. For a container that holds a text and no
  recognised node, \<open>extract_event_details\<close> returns a record of five fields (the id, which
  is empty, the default status, its kind, the empty links and the type), and the
  streaming extractor a record of two (the empty links and the default flag): neither is
  a record with zero fields. For a container holding an anchor whose address is
  \<open>//[/info/\<close>, on which \<open>urljoin\<close> raises \<open>ValueError\<close>, both extractors raise.
\<close>

theorem extract_zero_fields_counterexample:
  "extract_event_details join_strict [bare_container]
     = Inr [(U ''id'', JStr []), (U ''estado'', JStr (U ''Finalizado'')),
            (U ''estado_tipo'', JStr (U ''finalizado'')), (U ''enlaces'', JObj []),
            (U ''tipo'', JStr (U ''pasado''))]
   \<and> extract_event_details join_strict [bare_container] \<noteq> Inr []
   \<and> extract_events_item (\<lambda>s. s) join_strict bare_container
     = Inr [(U ''enlaces'', JObj []), (U ''pais_bandera'', JStr [127466, 127480])]
   \<and> extract_events_item (\<lambda>s. s) join_strict bare_container \<noteq> Inr []
   \<and> extract_event_details join_strict [bad_container] = Inl ValueError
   \<and> extract_events_item (\<lambda>s. s) join_strict bad_container = Inl ValueError"
proof -
  have c: "find_tag tag_div (has_class cls_container) (soup_nodes [bare_container])
      = Some bare_container"
    using bare_tags(1) bare_classes(1) by (rule container_first)
  have d: "extract_event_details join_strict [bare_container]
     = Inr [(U ''id'', JStr []), (U ''estado'', JStr (U ''Finalizado'')),
            (U ''estado_tipo'', JStr (U ''finalizado'')), (U ''enlaces'', JObj []),
            (U ''tipo'', JStr (U ''pasado''))]"
    by (simp add: no_recognised_details_result [OF bare_no_details] c bare_id default_details_def)
  have i: "extract_events_item (\<lambda>s. s) join_strict bare_container
     = Inr [(U ''enlaces'', JObj []), (U ''pais_bandera'', JStr [127466, 127480])]"
    by (simp add: no_recognised_item_result [OF bare_no_item] bare_id default_item_def flag_es_def)
  show ?thesis
    by (simp add: d i bad_details_raises bad_item_raises)
qed

text \<open>
  Claim C3, amended. Both extractors return a record for every parsed container unless
  the resolution of an anchor's address fails: an exception leaving them is one that
  \<open>urljoin\<close> raised on some reference against the base origin, and with a \<open>urljoin\<close>
  that never raises they always return a record. For a document in which no field rule
  finds its node \<open>extract_event_details\<close> returns the default status \<open>Finalizado\<close> of kind
  \<open>finalizado\<close>, the empty links and the type \<open>pasado\<close>, preceded by the id attribute
  of the first container when the document has one; so for such a container it returns
  these five fields, the id being empty when the attribute is absent. For a container in
  which no field rule finds its node the streaming extractor returns the empty links and
  the default flag when the container has no id, and otherwise the id without its prefix,
  the participants link built from it and the default flag.
\<close>

theorem extract_returns_defaults:
  "(\<forall>e. extract_event_details urljoin soup = Inl e \<longrightarrow> (\<exists>h. urljoin BASE h = Inl e))
   \<and> (\<forall>e. extract_events_item nfkc urljoin c = Inl e \<longrightarrow> (\<exists>h. urljoin BASE h = Inl e))
   \<and> ((\<forall>h. \<exists>u. urljoin BASE h = Inr u) \<longrightarrow>
        (\<exists>ev. extract_event_details urljoin soup = Inr ev)
        \<and> (\<exists>ev. extract_events_item nfkc urljoin c = Inr ev))
   \<and> (no_recognised_details soup \<longrightarrow>
        extract_event_details urljoin soup =
          Inr (default_details (map_option (attr_or_empty (U ''id''))
                 (find_tag tag_div (has_class cls_container) (soup_nodes soup)))))
   \<and> (is_tag tag_div c \<and> has_class cls_container c \<and> no_recognised_details [c] \<longrightarrow>
        extract_event_details urljoin [c]
          = Inr (default_details (Some (attr_or_empty (U ''id'') c))))
   \<and> (no_recognised_item c \<longrightarrow>
        extract_events_item nfkc urljoin c = Inr (default_item (attr_or_empty (U ''id'') c)))"
proof -
  have t: "(\<exists>ev. extract_event_details urljoin soup = Inr ev)
        \<and> (\<exists>ev. extract_events_item nfkc urljoin c = Inr ev)"
    if tot: "\<forall>h. \<exists>u. urljoin BASE h = Inr u"
  proof -
    have a: "\<exists>ev. extract_event_details urljoin soup = Inr ev"
    proof (cases "extract_event_details urljoin soup")
      case (Inl e)
      from extract_event_details_raises [OF Inl] obtain h where "urljoin BASE h = Inl e" by blast
      moreover from tot obtain u where "urljoin BASE h = Inr u" by blast
      ultimately show ?thesis by simp
    next
      case (Inr ev)
      then show ?thesis by blast
    qed
    have b: "\<exists>ev. extract_events_item nfkc urljoin c = Inr ev"
    proof (cases "extract_events_item nfkc urljoin c")
      case (Inl e)
      from extract_events_item_raises [OF Inl] obtain h where "urljoin BASE h = Inl e" by blast
      moreover from tot obtain u where "urljoin BASE h = Inr u" by blast
      ultimately show ?thesis by simp
    next
      case (Inr ev)
      then show ?thesis by blast
    qed
    from a b show ?thesis ..
  qed
  have k: "extract_event_details urljoin [c]
          = Inr (default_details (Some (attr_or_empty (U ''id'') c)))"
    if "is_tag tag_div c \<and> has_class cls_container c \<and> no_recognised_details [c]"
  proof -
    from that have "find_tag tag_div (has_class cls_container) (soup_nodes [c]) = Some c"
      by (simp add: container_first)
    with no_recognised_details_result [of "[c]" urljoin] that show ?thesis by simp
  qed
  from t k extract_event_details_raises [of urljoin soup] extract_events_item_raises [of nfkc urljoin c]
    no_recognised_details_result [of soup urljoin] no_recognised_item_result [of c nfkc urljoin]
  show ?thesis by blast
qed

theorem extract_returns_defaults_witness:
  "extract_event_details join_strict [bad_container] = Inl ValueError
   \<and> extract_events_item (\<lambda>s. s) join_strict bad_container = Inl ValueError
   \<and> (\<exists>h. join_strict BASE h = Inl ValueError)
   \<and> (\<forall>h. \<exists>u. join_base BASE h = Inr u)
   \<and> (\<exists>ev. extract_event_details join_base [bad_container] = Inr ev)
   \<and> (\<exists>ev. extract_events_item (\<lambda>s. s) join_base bad_container = Inr ev)
   \<and> is_tag tag_div bare_container \<and> has_class cls_container bare_container
   \<and> no_recognised_details [bare_container]
   \<and> extract_event_details join_strict [bare_container]
       = Inr [(U ''id'', JStr []), (U ''estado'', JStr (U ''Finalizado'')),
              (U ''estado_tipo'', JStr (U ''finalizado'')), (U ''enlaces'', JObj []),
              (U ''tipo'', JStr (U ''pasado''))]
   \<and> no_recognised_item bare_container
   \<and> extract_events_item (\<lambda>s. s) join_strict bare_container
       = Inr [(U ''enlaces'', JObj []), (U ''pais_bandera'', JStr flag_es)]
   \<and> is_tag tag_div id_container \<and> has_class cls_container id_container
   \<and> no_recognised_details [id_container]
   \<and> extract_event_details join_strict [id_container]
       = Inr [(U ''id'', JStr (U ''event-card-abc123'')), (U ''estado'', JStr (U ''Finalizado'')),
              (U ''estado_tipo'', JStr (U ''finalizado'')), (U ''enlaces'', JObj []),
              (U ''tipo'', JStr (U ''pasado''))]
   \<and> no_recognised_item id_container
   \<and> extract_events_item (\<lambda>s. s) join_strict id_container
       = Inr [(U ''id'', JStr (U ''abc123'')),
              (U ''enlaces'', JObj [(U ''participantes'', JStr (canonical_participants (U ''abc123'')))]),
              (U ''pais_bandera'', JStr flag_es)]"
proof -
  note th1 = extract_returns_defaults [of join_strict "[bad_container]" "\<lambda>s. s" bad_container]
  note th2 = extract_returns_defaults [of join_base "[bad_container]" "\<lambda>s. s" bad_container]
  note th3 = extract_returns_defaults [of join_strict "[bare_container]" "\<lambda>s. s" bare_container]
  note th4 = extract_returns_defaults [of join_strict "[id_container]" "\<lambda>s. s" id_container]
  have tot: "\<forall>h. \<exists>u. join_base BASE h = Inr u" by (simp add: join_base_def)
  have p1: "\<exists>h. join_strict BASE h = Inl ValueError"
    using th1 [THEN conjunct1] bad_details_raises by blast
  have p2: "\<exists>ev. extract_event_details join_base [bad_container] = Inr ev"
    and p3: "\<exists>ev. extract_events_item (\<lambda>s. s) join_base bad_container = Inr ev"
    using th2 [THEN conjunct2, THEN conjunct2, THEN conjunct1] tot by blast+
  have p4: "extract_event_details join_strict [bare_container]
       = Inr (default_details (Some (attr_or_empty (U ''id'') bare_container)))"
    using th3 [THEN conjunct2, THEN conjunct2, THEN conjunct2, THEN conjunct2, THEN conjunct1]
      bare_tags(1) bare_classes(1) bare_no_details by blast
  have p5: "extract_events_item (\<lambda>s. s) join_strict bare_container
       = Inr (default_item (attr_or_empty (U ''id'') bare_container))"
    using th3 [THEN conjunct2, THEN conjunct2, THEN conjunct2, THEN conjunct2, THEN conjunct2]
      bare_no_item by blast
  have p6: "extract_event_details join_strict [id_container]
       = Inr (default_details (Some (attr_or_empty (U ''id'') id_container)))"
    using th4 [THEN conjunct2, THEN conjunct2, THEN conjunct2, THEN conjunct2, THEN conjunct1]
      id_tags(1) id_classes(1) id_no_details by blast
  have p7: "extract_events_item (\<lambda>s. s) join_strict id_container
       = Inr (default_item (attr_or_empty (U ''id'') id_container))"
    using th4 [THEN conjunct2, THEN conjunct2, THEN conjunct2, THEN conjunct2, THEN conjunct2]
      id_no_item by blast
  have q4: "extract_event_details join_strict [bare_container]
       = Inr [(U ''id'', JStr []), (U ''estado'', JStr (U ''Finalizado'')),
              (U ''estado_tipo'', JStr (U ''finalizado'')), (U ''enlaces'', JObj []),
              (U ''tipo'', JStr (U ''pasado''))]"
    using p4 by (simp add: bare_id default_details_def)
  have q5: "extract_events_item (\<lambda>s. s) join_strict bare_container
       = Inr [(U ''enlaces'', JObj []), (U ''pais_bandera'', JStr flag_es)]"
    using p5 by (simp add: bare_id default_item_def)
  have q6: "extract_event_details join_strict [id_container]
       = Inr [(U ''id'', JStr (U ''event-card-abc123'')), (U ''estado'', JStr (U ''Finalizado'')),
              (U ''estado_tipo'', JStr (U ''finalizado'')), (U ''enlaces'', JObj []),
              (U ''tipo'', JStr (U ''pasado''))]"
    using p6 by (simp add: id_id default_details_def)
  have q7: "extract_events_item (\<lambda>s. s) join_strict id_container
       = Inr [(U ''id'', JStr (U ''abc123'')),
              (U ''enlaces'', JObj [(U ''participantes'', JStr (canonical_participants (U ''abc123'')))]),
              (U ''pais_bandera'', JStr flag_es)]"
    using p7 by (simp add: id_id default_item_def replace_id)
  from bad_details_raises bad_item_raises [of "\<lambda>s. s"] p1 tot p2 p3 bare_tags(1) bare_classes(1)
    bare_no_details q4 bare_no_item q5 id_tags(1) id_classes(1) id_no_details q6 id_no_item q7
  show ?thesis by blast
qed







lemma U_not_Nil: "U ''  Spring  Trial  '' \<noteq> []" "U ''Spring  Trial'' \<noteq> []"
  "U ''Finalizado'' \<noteq> []" "U ''event-card-abc123'' \<noteq> []"
  by simp_all










section \<open>Properties of the session handling\<close>

lemma on_login_page_is: "is_login_page on_login_page"
  by (simp add: is_login_page_def on_login_page_def login_url_def BASE_def U_def starts_with_def)

lemma login_url_is: "is_login_page (b\<lparr>current_url := login_url\<rparr>)"
  using on_login_page_is by (simp add: is_login_page_def on_login_page_def)

text \<open>
  Claim C6 at a failing input: three attempts are allowed, the browser is on the login
  page, and the wait after the first submit times out. \<open>_ensure_logged_in\<close> does not
  retry and does not return \<open>False\<close>: the \<open>TimeoutException\<close> of the first attempt leaves
  it, after one attempt.
\<close>

theorem ensure_logged_in_timeout_raises:
  "ensure_logged_in (\<lambda>n. RedirectTimeout) 3 on_login_page
     = (Inl TimeoutException, \<lparr>current_url = login_url, attempts = 1\<rparr>)"
  by (simp add: ensure_logged_in_def eval_nat_numeral on_login_page_is login_def)
     (simp add: on_login_page_def)

text \<open>When no attempt raises, the loop is the one of the claim.\<close>

lemma ensure_logged_in_loop_returns:
  assumes "\<forall>n. \<exists>url. site n = Redirected url"
  shows "\<exists>r b1. ensure_logged_in_loop site n b = (Inr r, b1)
           \<and> (r \<longrightarrow> \<not> is_login_page b1)
           \<and> attempts b1 \<le> attempts b + n
           \<and> (\<not> r \<longrightarrow> attempts b1 = attempts b + n \<and> (is_login_page b \<longrightarrow> is_login_page b1))"
proof (induction n arbitrary: b)
  case 0
  show ?case by auto
next
  case (Suc n)
  show ?case
  proof (cases "is_login_page b")
    case False
    then show ?thesis by auto
  next
    case True
    obtain url where u: "site (attempts b) = Redirected url" using assms by blast
    let ?b1 = "b\<lparr>current_url := url, attempts := Suc (attempts b)\<rparr>"
    have l: "login site b = (Inr (), ?b1)" by (simp add: login_def u)
    show ?thesis
    proof (cases "is_login_page ?b1")
      case False
      with True l show ?thesis by auto
    next
      case t: True
      obtain r b2 where rest: "ensure_logged_in_loop site n ?b1 = (Inr r, b2)"
        and 1: "r \<longrightarrow> \<not> is_login_page b2" and 2: "attempts b2 \<le> attempts ?b1 + n"
        and 3: "\<not> r \<longrightarrow> attempts b2 = attempts ?b1 + n \<and> (is_login_page ?b1 \<longrightarrow> is_login_page b2)"
        using Suc.IH [of ?b1] by blast
      have e: "ensure_logged_in_loop site (Suc n) b = (Inr r, b2)"
        using True l t rest by simp
      have le: "attempts b2 \<le> attempts b + Suc n" using 2 by simp
      have nr: "\<not> r \<longrightarrow> attempts b2 = attempts b + Suc n \<and> (is_login_page b \<longrightarrow> is_login_page b2)"
        using 3 t by simp
      from e 1 le nr show ?thesis by blast
    qed
  qed
qed

section \<open>Properties of the page-advance loop\<close>

lemma page_count_round [simp]:
  "page_count (called cs st) = page_count st"
  "page_count (collect urljoin soup st) = page_count st"
  "page_count (scroll_and_read view st) = page_count st + 1"
  by (simp_all add: called_def collect_def scroll_and_read_def)

lemma loop_done:
  "\<not> page_count st < max_pages \<Longrightarrow> handle_pagination_loop urljoin site st = (Inr (), st)"
  by (simp add: handle_pagination_loop.simps)

lemma loop_crash:
  "page_count st < max_pages \<Longrightarrow> source (site (page_count st)) = Inl e \<Longrightarrow>
   handle_pagination_loop urljoin site st = (Inl e, scroll_and_read (site (page_count st)) st)"
  by (subst handle_pagination_loop.simps) (simp add: Let_def)

lemma loop_stop:
  "page_count st < max_pages \<Longrightarrow> source (site (page_count st)) = Inr soup \<Longrightarrow>
   next_control (site (page_count st)) \<noteq> NextPageLoaded \<Longrightarrow>
   \<exists>cs. handle_pagination_loop urljoin site st =
     (Inr (), called cs (collect urljoin soup (scroll_and_read (site (page_count st)) st)))
     \<and> set cs \<subseteq> {WaitClickable, Click, WaitPresence}"
  apply (subst handle_pagination_loop.simps)
  apply (cases "next_control (site (page_count st))")
     apply (simp_all add: Let_def)
    apply (rule exI [of _ "[WaitClickable]"], simp)
   apply (rule exI [of _ "[WaitClickable, Click]"], simp)
  apply (rule exI [of _ "[WaitClickable, Click, WaitPresence]"], simp)
  done

lemma loop_advance:
  "page_count st < max_pages \<Longrightarrow> source (site (page_count st)) = Inr soup \<Longrightarrow>
   next_control (site (page_count st)) = NextPageLoaded \<Longrightarrow>
   handle_pagination_loop urljoin site st =
     handle_pagination_loop urljoin site
       (called [WaitClickable, Click, WaitPresence]
          (collect urljoin soup (scroll_and_read (site (page_count st)) st)))"
  by (subst handle_pagination_loop.simps) (simp add: Let_def)

text \<open>The count never passes the ceiling.\<close>

lemma loop_bounded:
  "page_count st \<le> max_pages \<Longrightarrow>
   page_count (snd (handle_pagination_loop urljoin site st)) \<le> max_pages"
proof (induction "max_pages - page_count st" arbitrary: st)
  case 0
  then show ?case by (simp add: loop_done)
next
  case (Suc d)
  then have lt: "page_count st < max_pages" by simp
  show ?case
  proof (cases "source (site (page_count st))")
    case (Inl e)
    with lt show ?thesis by (simp add: loop_crash)
  next
    case (Inr soup)
    show ?thesis
    proof (cases "next_control (site (page_count st)) = NextPageLoaded")
      case False
      from loop_stop [of st site soup urljoin, OF lt Inr False] lt show ?thesis by auto
    next
      case True
      let ?st = "called [WaitClickable, Click, WaitPresence]
          (collect urljoin soup (scroll_and_read (site (page_count st)) st))"
      have "d = max_pages - page_count ?st" using Suc.hyps(2) by simp
      moreover have "page_count ?st \<le> max_pages" using lt by simp
      ultimately have "page_count (snd (handle_pagination_loop urljoin site ?st)) \<le> max_pages"
        by (rule Suc.hyps(1))
      then show ?thesis by (simp add: loop_advance [of st site soup urljoin, OF lt Inr True])
    qed
  qed
qed

lemma loop_stops_at:
  assumes "page_count st \<le> i" and "i < max_pages"
    and "\<forall>j. page_count st \<le> j \<and> j < i \<longrightarrow>
           (\<exists>soup. source (site j) = Inr soup) \<and> next_control (site j) = NextPageLoaded"
    and "source (site i) = Inr soup" and "next_control (site i) \<noteq> NextPageLoaded"
  shows "\<exists>st'. handle_pagination_loop urljoin site st = (Inr (), st') \<and> page_count st' = i + 1"
  using assms
proof (induction "i - page_count st" arbitrary: st)
  case 0
  then have e: "page_count st = i" by simp
  from loop_stop [of st site soup urljoin] 0 e show ?case by auto
next
  case (Suc d)
  then have lt: "page_count st < i" by simp
  then have lt2: "page_count st < max_pages" using Suc.prems(2) by simp
  from Suc.prems(3) lt obtain s where s: "source (site (page_count st)) = Inr s"
    and n: "next_control (site (page_count st)) = NextPageLoaded" by auto
  let ?st = "called [WaitClickable, Click, WaitPresence]
          (collect urljoin s (scroll_and_read (site (page_count st)) st))"
  have d: "d = i - page_count ?st" using Suc.hyps(2) by simp
  have le: "page_count ?st \<le> i" using lt by simp
  have all: "\<forall>j. page_count ?st \<le> j \<and> j < i \<longrightarrow>
           (\<exists>soup. source (site j) = Inr soup) \<and> next_control (site j) = NextPageLoaded"
    using Suc.prems(3) by simp
  from Suc.hyps(1) [OF d le Suc.prems(2) all Suc.prems(4) Suc.prems(5)]
  show ?case by (simp add: loop_advance [of st site s urljoin, OF lt2 s n])
qed

lemma loop_reaches_ceiling:
  assumes "page_count st \<le> max_pages"
    and "\<forall>j. page_count st \<le> j \<and> j < max_pages \<longrightarrow>
           (\<exists>soup. source (site j) = Inr soup) \<and> next_control (site j) = NextPageLoaded"
  shows "\<exists>st'. handle_pagination_loop urljoin site st = (Inr (), st') \<and> page_count st' = max_pages"
  using assms
proof (induction "max_pages - page_count st" arbitrary: st)
  case 0
  then show ?case by (simp add: loop_done)
next
  case (Suc d)
  then have lt: "page_count st < max_pages" by simp
  from Suc.prems(2) lt obtain s where s: "source (site (page_count st)) = Inr s"
    and n: "next_control (site (page_count st)) = NextPageLoaded" by auto
  let ?st = "called [WaitClickable, Click, WaitPresence]
          (collect urljoin s (scroll_and_read (site (page_count st)) st))"
  have d: "d = max_pages - page_count ?st" using Suc.hyps(2) by simp
  have le: "page_count ?st \<le> max_pages" using lt by simp
  have all: "\<forall>j. page_count ?st \<le> j \<and> j < max_pages \<longrightarrow>
           (\<exists>soup. source (site j) = Inr soup) \<and> next_control (site j) = NextPageLoaded"
    using Suc.prems(2) by simp
  from Suc.hyps(1) [OF d le all]
  show ?case by (simp add: loop_advance [of st site s urljoin, OF lt s n])
qed

lemma driver_calls_round:
  "set (driver_calls (scroll_and_read view st))
     \<subseteq> set (driver_calls st) \<union> {ExecuteScript, PageSource}"
  "driver_calls (collect urljoin soup st) = driver_calls st"
  "driver_calls (called cs st) = driver_calls st @ cs"
  by (auto simp: scroll_and_read_def collect_def called_def)

lemma loop_calls:
  "set (driver_calls (snd (handle_pagination_loop urljoin site st)))
     \<subseteq> set (driver_calls st) \<union> {ExecuteScript, PageSource, WaitClickable, Click, WaitPresence}"
proof (induction "max_pages - page_count st" arbitrary: st)
  case 0
  then show ?case by (auto simp: loop_done)
next
  case (Suc d)
  then have lt: "page_count st < max_pages" by simp
  show ?case
  proof (cases "source (site (page_count st))")
    case (Inl e)
    with lt driver_calls_round(1) [of "site (page_count st)" st] show ?thesis
      by (auto simp: loop_crash)
  next
    case (Inr soup)
    show ?thesis
    proof (cases "next_control (site (page_count st)) = NextPageLoaded")
      case False
      from loop_stop [of st site soup urljoin, OF lt Inr False]
        driver_calls_round(1) [of "site (page_count st)" st]
      show ?thesis by (auto simp: driver_calls_round(2,3))
    next
      case True
      let ?st = "called [WaitClickable, Click, WaitPresence]
          (collect urljoin soup (scroll_and_read (site (page_count st)) st))"
      have "d = max_pages - page_count ?st" using Suc.hyps(2) by simp
      then have "set (driver_calls (snd (handle_pagination_loop urljoin site ?st)))
         \<subseteq> set (driver_calls ?st) \<union> {ExecuteScript, PageSource, WaitClickable, Click, WaitPresence}"
        by (rule Suc.hyps(1))
      with driver_calls_round(1) [of "site (page_count st)" st] show ?thesis
        by (auto simp: loop_advance [of st site soup urljoin, OF lt Inr True] driver_calls_round(2,3))
    qed
  qed
qed

lemma loop_ignores_url:
  "handle_pagination_loop urljoin (\<lambda>n. (site n)\<lparr>page_url := u n\<rparr>) st
     = handle_pagination_loop urljoin site st"
proof (induction "max_pages - page_count st" arbitrary: st)
  case 0
  then show ?case by (simp add: loop_done)
next
  case (Suc d)
  then have lt: "page_count st < max_pages" by simp
  let ?site = "\<lambda>n. (site n)\<lparr>page_url := u n\<rparr>"
  have sr: "scroll_and_read (?site (page_count st)) st = scroll_and_read (site (page_count st)) st"
    by (simp add: scroll_and_read_def)
  show ?case
  proof (cases "source (site (page_count st))")
    case (Inl e)
    then have "source (?site (page_count st)) = Inl e" by simp
    with lt Inl sr show ?thesis
      by (simp add: loop_crash [of st site e] loop_crash [of st ?site e])
  next
    case (Inr soup)
    then have Inr': "source (?site (page_count st)) = Inr soup" by simp
    show ?thesis
    proof (cases "next_control (site (page_count st)) = NextPageLoaded")
      case False
      then show ?thesis
        using lt Inr
        by (subst handle_pagination_loop.simps, subst (2) handle_pagination_loop.simps)
           (simp add: Let_def sr split: nav_outcome.splits)
    next
      case True
      then have True': "next_control (?site (page_count st)) = NextPageLoaded" by simp
      let ?st = "called [WaitClickable, Click, WaitPresence]
          (collect urljoin soup (scroll_and_read (site (page_count st)) st))"
      have "d = max_pages - page_count ?st" using Suc.hyps(2) by simp
      then have "handle_pagination_loop urljoin ?site ?st = handle_pagination_loop urljoin site ?st"
        by (rule Suc.hyps(1))
      then show ?thesis
        using loop_advance [of st site soup urljoin, OF lt Inr True]
          loop_advance [of st ?site soup urljoin, OF lt Inr' True'] sr
        by simp
    qed
  qed
qed

lemma bare_details: "extract_event_details join_base [bare_container] = Inr bare_event"
  by (simp add: extract_event_details_def Let_def bare_soup find_tag_def bare_tags bare_classes
      is_tag_simps has_class_simps status_fields_def details_links_def add_link_def set_opt_def
      bare_event_def)
     (simp add: bare_container_def attr_or_empty_def attr_def)

lemma bare_page: "page_events join_base [bare_container] = [bare_event]"
  by (simp add: page_events_def bare_soup find_all_def bare_tags bare_classes is_tag_simps
      bare_details)

lemma still_scroll: "full_scroll (\<lambda>i. 0) = 1"
  by (simp add: full_scroll_def MAX_SCROLLS_def eval_nat_numeral)

lemma expired_run:
  "handle_pagination join_base site_expired =
     (Inr [bare_event, bare_event],
      \<lparr>events_data = [bare_event, bare_event], page_count = 2,
        driver_calls = [ExecuteScript, ExecuteScript, PageSource, WaitClickable, Click, WaitPresence,
                        ExecuteScript, ExecuteScript, PageSource, WaitClickable]\<rparr>)"
  apply (simp add: handle_pagination_def)
  apply (subst handle_pagination_loop.simps)
  apply (simp add: max_pages_def site_expired_def still_page_def Let_def scroll_and_read_def
      collect_def called_def still_scroll bare_page)
  apply (subst handle_pagination_loop.simps)
  apply (simp add: max_pages_def site_expired_def still_page_def Let_def scroll_and_read_def
      collect_def called_def still_scroll bare_page eval_nat_numeral)
  done

text \<open>
  Claim C7. The loop re-verifies nothing when it enters a new page. On a site whose
  second page is the login page (the session expired while the first page was read),
  \<open>_handle_pagination\<close> advances to that page, extracts its containers like those of
  the first page and returns both, without ever reading the address of the browser;
  \<open>_is_login_page\<close> would have answered that the browser is on the login page. The
  functions \<open>_is_login_page\<close> and \<open>_ensure_logged_in\<close> of the same file are called
  nowhere in the loop.
\<close>

theorem page_transition_unverified:
  "is_login_page \<lparr>current_url = page_url (site_expired 1), attempts = 0\<rparr>
   \<and> fst (handle_pagination join_base site_expired) = Inr [bare_event, bare_event]
   \<and> page_count (snd (handle_pagination join_base site_expired)) = 2
   \<and> driver_calls (snd (handle_pagination join_base site_expired))
       = [ExecuteScript, ExecuteScript, PageSource, WaitClickable, Click, WaitPresence,
          ExecuteScript, ExecuteScript, PageSource, WaitClickable]
   \<and> CurrentUrl \<notin> set (driver_calls (snd (handle_pagination join_base site_expired)))"
  using on_login_page_is
  by (simp add: expired_run site_expired_def still_page_def is_login_page_def on_login_page_def)

text \<open>
  Claim C8. \<open>_handle_pagination\<close> always returns, having processed at most
  \<open>max_pages = 50\<close> pages. When the pages before page \<open>i\<close> load and advance, and on page
  \<open>i\<close> no next control is found or the wait for the next page times out, it returns its
  events normally after \<open>i + 1\<close> pages; when the next control is always there and always
  works, it returns normally after exactly 50 pages.
\<close>

theorem page_loop_terminates:
  "(\<exists>r st. handle_pagination urljoin site = (r, st) \<and> page_count st \<le> max_pages \<and> max_pages = 50)
   \<and> (i < max_pages
        \<and> (\<forall>j<i. (\<exists>soup. source (site j) = Inr soup) \<and> next_control (site j) = NextPageLoaded)
        \<and> (\<exists>soup. source (site i) = Inr soup)
        \<and> (next_control (site i) = NextNotFound \<or> next_control (site i) = ContentTimeout)
      \<longrightarrow> (\<exists>evs st. handle_pagination urljoin site = (Inr evs, st) \<and> page_count st = i + 1))
   \<and> ((\<forall>j. (\<exists>soup. source (site j) = Inr soup) \<and> next_control (site j) = NextPageLoaded)
      \<longrightarrow> (\<exists>evs st. handle_pagination urljoin site = (Inr evs, st) \<and> page_count st = 50))"
proof -
  let ?st0 = "\<lparr>events_data = [], page_count = 0, driver_calls = []\<rparr>"
  have b: "page_count (snd (handle_pagination_loop urljoin site ?st0)) \<le> max_pages"
    by (rule loop_bounded) simp
  have 1: "\<exists>r st. handle_pagination urljoin site = (r, st) \<and> page_count st \<le> max_pages \<and> max_pages = 50"
    using b by (auto simp: handle_pagination_def max_pages_def split: prod.splits sum.splits)
  have 2: "\<exists>evs st. handle_pagination urljoin site = (Inr evs, st) \<and> page_count st = i + 1"
    if "i < max_pages"
      and "\<forall>j<i. (\<exists>soup. source (site j) = Inr soup) \<and> next_control (site j) = NextPageLoaded"
      and "\<exists>soup. source (site i) = Inr soup"
      and "next_control (site i) = NextNotFound \<or> next_control (site i) = ContentTimeout"
  proof -
    from that(3) obtain soup where s: "source (site i) = Inr soup" by blast
    from that(4) have n: "next_control (site i) \<noteq> NextPageLoaded" by auto
    have "\<exists>st'. handle_pagination_loop urljoin site ?st0 = (Inr (), st') \<and> page_count st' = i + 1"
      by (rule loop_stops_at [of ?st0 i site soup urljoin, OF _ that(1) _ s n]) (use that(2) in simp_all)
    then show ?thesis by (auto simp: handle_pagination_def)
  qed
  have 3: "\<exists>evs st. handle_pagination urljoin site = (Inr evs, st) \<and> page_count st = 50"
    if "\<forall>j. (\<exists>soup. source (site j) = Inr soup) \<and> next_control (site j) = NextPageLoaded"
  proof -
    have "\<exists>st'. handle_pagination_loop urljoin site ?st0 = (Inr (), st') \<and> page_count st' = max_pages"
      by (rule loop_reaches_ceiling) (use that in simp_all)
    then show ?thesis by (auto simp: handle_pagination_def max_pages_def)
  qed
  from 1 2 3 show ?thesis by blast
qed

theorem page_loop_terminates_witness:
  "(1::nat) < max_pages
   \<and> source (site_expired 0) = Inr [bare_container] \<and> next_control (site_expired 0) = NextPageLoaded
   \<and> source (site_expired 1) = Inr [bare_container] \<and> next_control (site_expired 1) = NextNotFound
   \<and> (\<exists>evs st. handle_pagination join_base site_expired = (Inr evs, st) \<and> page_count st = 2)
   \<and> (\<exists>evs st. handle_pagination join_base site_endless = (Inr evs, st) \<and> page_count st = 50)"
proof -
  have a: "(1::nat) < max_pages" by (simp add: max_pages_def)
  have p0: "source (site_expired 0) = Inr [bare_container]" "next_control (site_expired 0) = NextPageLoaded"
    and p1: "source (site_expired 1) = Inr [bare_container]" "next_control (site_expired 1) = NextNotFound"
    by (simp_all add: site_expired_def still_page_def)
  have before: "\<forall>j<1. (\<exists>soup. source (site_expired j) = Inr soup) \<and> next_control (site_expired j) = NextPageLoaded"
    using p0 by simp
  have e: "\<forall>j. (\<exists>soup. source (site_endless j) = Inr soup) \<and> next_control (site_endless j) = NextPageLoaded"
    by (simp add: site_endless_def still_page_def)
  from page_loop_terminates [of join_base site_expired 1] a before p1
  have 1: "\<exists>evs st. handle_pagination join_base site_expired = (Inr evs, st) \<and> page_count st = 2"
    by auto
  from page_loop_terminates [of join_base site_endless 0] e
  have 2: "\<exists>evs st. handle_pagination join_base site_endless = (Inr evs, st) \<and> page_count st = 50"
    by blast
  from a p0 p1 1 2 show ?thesis by blast
qed

end
